theory Spec2Isabelle
  imports Main "HOL-Library.List_Lexorder" "HOL-Library.Multiset" "HOL-Library.Sublist"
begin

text \<open>
  The renderer of the main window of YAM (\<open>main-renderer.js\<close>): the parsing of
  directory names, the ingestion of game directories into the library, and the
  synchronization of the watched threads with the list the remote site gives. The
  functions are embedded with their names; what they await from outside (the remote
  catalog, the user, the name of a directory, the rejection of a call) is a parameter,
  as are the case tables of Unicode beyond Latin-1, and what they do to the outside
  (the stores, the log, the messages) is returned.
\<close>

section \<open>JavaScript strings\<close>

text \<open>
  A JavaScript string is a sequence of UTF-16 code units, and \<open>length\<close>, \<open>indexOf\<close>,
  \<open>substr\<close> and the regular expressions of the renderer (none has the \<open>u\<close> flag) all
  count code units. A string is therefore a list of code units, each a natural number
  below 65536. \<open>js\<close> turns an ASCII literal into such a string.
\<close>

type_synonym jsstring = "nat list"

definition js :: "string \<Rightarrow> jsstring" where
  "js s = map of_char s"

text \<open>
  \<open>String.prototype.toUpperCase\<close> maps the string through the Unicode case tables,
  and some units expand: U+00DF (sharp s) becomes the two units \<open>SS\<close>. For a string
  within Basic Latin and Latin-1 Supplement (every unit below 256) the mapping goes
  unit by unit, and \<open>upperUnit\<close> is the Unicode table for these units. The tables
  for the rest of Unicode are not written out: on a string with a unit from 256 on,
  the result is that of the parameter \<open>unicodeUpper\<close>, which stands for
  \<open>toUpperCase\<close> there. Every function that upper-cases takes this parameter.
\<close>

definition upperUnit :: "nat \<Rightarrow> jsstring" where
  "upperUnit c =
     (if 97 \<le> c \<and> c \<le> 122 then [c - 32]
      else if c = 181 then [924]
      else if c = 223 then [83, 83]
      else if 224 \<le> c \<and> c \<le> 254 \<and> c \<noteq> 247 then [c - 32]
      else if c = 255 then [376]
      else [c])"

definition toUpperCase :: "(jsstring \<Rightarrow> jsstring) \<Rightarrow> jsstring \<Rightarrow> jsstring" where
  "toUpperCase unicodeUpper s =
     (if list_all (\<lambda>c. c < 256) s then concat (map upperUnit s) else unicodeUpper s)"

definition startsWith :: "jsstring \<Rightarrow> jsstring \<Rightarrow> bool" where
  "startsWith s pat = (take (length pat) s = pat)"

text \<open>\<open>indexOfAux pat s i\<close> searches \<open>pat\<close> in \<open>s\<close>, whose first unit has index \<open>i\<close>;
  the result is \<open>-1\<close> when there is no occurrence, as in JavaScript.\<close>

fun indexOfAux :: "jsstring \<Rightarrow> jsstring \<Rightarrow> nat \<Rightarrow> int" where
  "indexOfAux pat [] i = (if pat = [] then int i else - 1)"
| "indexOfAux pat (c # cs) i =
     (if startsWith (c # cs) pat then int i else indexOfAux pat cs (Suc i))"

definition indexOf :: "jsstring \<Rightarrow> jsstring \<Rightarrow> int \<Rightarrow> int" where
  "indexOf s pat fromIndex = (let k = min (nat fromIndex) (length s) in indexOfAux pat (drop k s) k)"

definition includesStr :: "jsstring \<Rightarrow> jsstring \<Rightarrow> bool" where
  "includesStr s pat = (indexOf s pat 0 \<noteq> - 1)"

text \<open>\<open>substr(start, length)\<close>: a negative start counts from the end, a length that is
  zero or negative gives the empty string.\<close>

definition substr :: "jsstring \<Rightarrow> int \<Rightarrow> int \<Rightarrow> jsstring" where
  "substr s start len =
     (let n = int (length s);
          st = (if start < 0 then max (n + start) 0 else min start n)
      in if len \<le> 0 then [] else take (nat len) (drop (nat st) s))"

text \<open>White space and line terminators of ECMAScript, as \<open>trim\<close> strips them.\<close>

definition isWhiteSpace :: "nat \<Rightarrow> bool" where
  "isWhiteSpace c =
     (c \<in> {9, 10, 11, 12, 13, 32, 160, 5760, 8232, 8233, 8239, 8287, 12288, 65279}
      \<or> (8192 \<le> c \<and> c \<le> 8202))"

definition trim :: "jsstring \<Rightarrow> jsstring" where
  "trim s = rev (dropWhile isWhiteSpace (rev (dropWhile isWhiteSpace s)))"

definition isDigit :: "nat \<Rightarrow> bool" where
  "isDigit c = (48 \<le> c \<and> c \<le> 57)"

section \<open>Directory names\<close>

subsection \<open>cleanGameName\<close>

text \<open>The dot of a regular expression matches every unit but the line terminators.\<close>

definition isLineTerminator :: "nat \<Rightarrow> bool" where
  "isLineTerminator c = (c \<in> {10, 13, 8232, 8233})"

text \<open>
  \<open>rxTags = /\[(.*?)\]/g\<close>. After an opening bracket (unit 91) the lazy group runs to
  the first closing bracket (unit 93), and fails at a line terminator met before it.
  \<open>closeTag cs\<close> is the rest of the string after that closing bracket, if the match
  succeeds on \<open>cs\<close>, the units after the opening bracket.
\<close>

fun closeTag :: "jsstring \<Rightarrow> jsstring option" where
  "closeTag [] = None"
| "closeTag (c # cs) =
     (if c = 93 then Some cs else if isLineTerminator c then None else closeTag cs)"

lemma closeTag_length: "closeTag cs = Some r \<Longrightarrow> length r < Suc (length cs)"
  by (induction cs) (auto split: if_splits)

text \<open>\<open>name.replace(rxTags, "")\<close>: every match is removed, the search resuming after it.\<close>

function removeTags :: "jsstring \<Rightarrow> jsstring" where
  "removeTags [] = []"
| "removeTags (c # cs) =
     (if c = 91 then
        (case closeTag cs of
           Some r \<Rightarrow> removeTags r
         | None \<Rightarrow> c # removeTags cs)
      else c # removeTags cs)"
  by pat_completeness auto
termination
  by (relation "measure length") (auto dest: closeTag_length)

text \<open>\<open>rxSpecials = /[/\\?%*:|"<>]/g\<close>: slash, backslash, question mark, percent,
  asterisk, colon, bar, double quote, less than, greater than.\<close>

definition isSpecial :: "nat \<Rightarrow> bool" where
  "isSpecial c = (c \<in> {47, 92, 63, 37, 42, 58, 124, 34, 60, 62})"

definition cleanGameName :: "jsstring \<Rightarrow> jsstring" where
  "cleanGameName name = trim (filter (\<lambda>c. \<not> isSpecial c) (removeTags name))"

subsection \<open>getGameVersionFromName\<close>

definition getGameVersionFromName :: "(jsstring \<Rightarrow> jsstring) \<Rightarrow> jsstring \<Rightarrow> jsstring" where
  "getGameVersionFromName unicodeUpper name =
     (let version = js ''Unknown'';
          PREFIX_VERSION = js ''[V.''
      in if includesStr (toUpperCase unicodeUpper name) PREFIX_VERSION then
           (let startIndex = indexOf (toUpperCase unicodeUpper name) PREFIX_VERSION 0
                               + int (length PREFIX_VERSION);
                endIndex = indexOf name (js '']'') startIndex
            in substr name startIndex (endIndex - startIndex))
         else version)"

subsection \<open>getDirInfo\<close>

record dirInfo =
  di_path :: jsstring
  di_name :: jsstring
  di_version :: jsstring
  di_mod :: bool

text \<open>\<open>window.API.getDirName\<close> belongs to the preload script of the main window; it
  is the parameter \<open>getDirName\<close> of every function that calls it.\<close>

definition getDirInfo ::
  "(jsstring \<Rightarrow> jsstring) \<Rightarrow> (jsstring \<Rightarrow> jsstring) \<Rightarrow> jsstring \<Rightarrow> dirInfo" where
  "getDirInfo unicodeUpper getDirName path =
     (let unparsedName = getDirName path;
          name = cleanGameName unparsedName;
          version = getGameVersionFromName unicodeUpper unparsedName;
          includeMods = includesStr (toUpperCase unicodeUpper unparsedName) (js ''[MOD]'')
      in \<lparr>di_path = path, di_name = name, di_version = version, di_mod = includeMods\<rparr>)"

section \<open>Remote catalog and stores\<close>

text \<open>
  The value a rejected promise carries. An awaited call that fails is a result
  \<open>Inl e\<close>; the exception then leaves the function that awaited, unless a
  \<open>try\<close> block catches it.
\<close>

datatype error = Error jsstring

datatype status = Completed | Threw error

text \<open>\<open>GameInfo\<close>, the metadata the remote catalog (\<open>window.F95\<close>) returns.\<close>

record gameInfo =
  gi_id :: nat
  gi_name :: jsstring
  gi_author :: jsstring
  gi_version :: jsstring
  gi_url :: jsstring
  gi_isMod :: bool

text \<open>
  The remote catalog is outside the program: \<open>window.F95.getGameDataFromURL\<close> is the
  parameter \<open>fetch\<close> and \<open>window.F95.getGameData\<close> the parameter \<open>search\<close> of the
  functions below. Thread and game identifiers are JavaScript numbers with integral
  values; they are natural numbers here.
\<close>

type_synonym fetchByUrl = "jsstring \<Rightarrow> error + gameInfo"

type_synonym searchByName = "jsstring \<Rightarrow> bool \<Rightarrow> error + gameInfo list"

subsection \<open>Thread store\<close>

text \<open>\<open>ThreadInfo\<close>: the fields of a thread record but the \<open>_id\<close> the store gives it.\<close>

record threadInfo =
  t_id :: nat
  t_url :: jsstring
  t_name :: jsstring
  updateAvailable :: bool
  markedAsRead :: bool

text \<open>
  Modelled from the spec: \<open>window.TI.convert\<close>, the conversion of remote metadata
  into a \<open>ThreadInfo\<close>, is not among the sources. The spec has the new
  \<open>ThreadRecord\<close> built from the fetched remote info with
  \<open>updateAvailable = false\<close> and \<open>markedAsRead = false\<close>; identifier, URL and name
  are those of the remote info, the only argument of the call.
\<close>

definition TI_convert :: "gameInfo \<Rightarrow> threadInfo" where
  "TI_convert g =
     \<lparr>t_id = gi_id g, t_url = gi_url g, t_name = gi_name g,
      updateAvailable = False, markedAsRead = False\<rparr>"

text \<open>
  Modelled from the spec: \<open>window.ThreadDB\<close>, the persisted thread store, is not among
  the sources. The spec gives it \<open>find\<close>, \<open>insert\<close>, \<open>update\<close> and \<open>delete\<close>, with
  the internal identifier assigned by the store at insertion and preserved by an
  update. The store is the list of its rows in insertion order, each row the internal
  identifier \<open>_id\<close> with the record, and the next free identifier.
\<close>

record threadDB =
  rows :: "(nat \<times> threadInfo) list"
  nextId :: nat

definition emptyThreadDB :: threadDB where
  "emptyThreadDB = \<lparr>rows = [], nextId = 0\<rparr>"

definition ThreadDB_search_id :: "nat \<Rightarrow> threadDB \<Rightarrow> (nat \<times> threadInfo) list" where
  "ThreadDB_search_id i db = filter (\<lambda>(k, t). t_id t = i) (rows db)"

definition ThreadDB_insert :: "threadInfo \<Rightarrow> threadDB \<Rightarrow> threadDB" where
  "ThreadDB_insert t db = \<lparr>rows = rows db @ [(nextId db, t)], nextId = Suc (nextId db)\<rparr>"

definition ThreadDB_write :: "nat \<Rightarrow> threadInfo \<Rightarrow> threadDB \<Rightarrow> threadDB" where
  "ThreadDB_write k t db =
     \<lparr>rows = map (\<lambda>(k', t'). if k' = k then (k, t) else (k', t')) (rows db),
      nextId = nextId db\<rparr>"

definition ThreadDB_delete :: "nat \<Rightarrow> threadDB \<Rightarrow> threadDB" where
  "ThreadDB_delete k db = \<lparr>rows = filter (\<lambda>(k', t'). k' \<noteq> k) (rows db), nextId = nextId db\<rparr>"

section \<open>Watched threads\<close>

subsection \<open>Extraction of the thread identifier\<close>

text \<open>
  \<open>url.match(/\.[0-9]+/)\<close>: the leftmost dot (unit 46) followed by a digit, with the
  longest run of digits after it; \<open>None\<close> is the \<open>null\<close> of a failed match.
\<close>

fun matchId :: "jsstring \<Rightarrow> jsstring option" where
  "matchId [] = None"
| "matchId (c # cs) =
     (if c = 46 \<and> takeWhile isDigit cs \<noteq> [] then Some (c # takeWhile isDigit cs)
      else matchId cs)"

text \<open>\<open>s.replace(".", "")\<close> removes the first dot of \<open>s\<close>.\<close>

definition replaceDot :: "jsstring \<Rightarrow> jsstring" where
  "replaceDot s = remove1 46 s"

text \<open>
  \<open>parseInt\<close> on a string that starts with a decimal digit: the value of its
  leading digits, as a JavaScript number. The renderer calls it on such strings only.
  A number is a double: a value below \<open>2 ^ 53\<close> is kept, a larger one is rounded
  to 53 significant bits, to the nearest and on a tie to the even one.
  \<open>roundToDouble\<close> gives the number for every value that is not rounded to
  \<open>Infinity\<close>, that is, below \<open>2 ^ 1024 - 2 ^ 970\<close>: for every run of at
  most 308 digits.
\<close>

definition decimalValue :: "jsstring \<Rightarrow> nat" where
  "decimalValue ds = foldl (\<lambda>n c. 10 * n + (c - 48)) 0 ds"

function bitLength :: "nat \<Rightarrow> nat" where
  "bitLength n = (if n = 0 then 0 else Suc (bitLength (n div 2)))"
  by pat_completeness auto
termination
  by (relation "measure id") auto

declare bitLength.simps [simp del]

definition roundToDouble :: "nat \<Rightarrow> nat" where
  "roundToDouble n =
     (if n < 2 ^ 53 then n
      else
        (let e = bitLength n - 53;
             q = n div 2 ^ e;
             r = n mod 2 ^ e
         in if 2 * r < 2 ^ e \<or> (2 * r = 2 ^ e \<and> even q) then q * 2 ^ e
            else (q + 1) * 2 ^ e))"

definition parseInt :: "jsstring \<Rightarrow> nat" where
  "parseInt s = roundToDouble (decimalValue (takeWhile isDigit s))"

definition extractId :: "jsstring \<Rightarrow> nat option" where
  "extractId url =
     (case matchId url of
        None \<Rightarrow> None
      | Some m \<Rightarrow> Some (parseInt (replaceDot m)))"

subsection \<open>syncDatabaseWatchedThreads\<close>

text \<open>What a pass does to the world outside: the warnings it logs and the calls
  that change the thread store.\<close>

datatype syncEvent =
    LogWarn jsstring
  | ThreadInsert threadInfo
  | ThreadWrite nat threadInfo
  | ThreadDelete nat

text \<open>
  The body of the first loop for one URL, from the list of recent identifiers and the
  store before it to the status, the list and the store after it and the events of
  the iteration. A fetch that fails throws out of the whole function.
\<close>

definition syncUrl ::
  "fetchByUrl \<Rightarrow> jsstring \<Rightarrow> nat list \<Rightarrow> threadDB
     \<Rightarrow> status \<times> nat list \<times> threadDB \<times> syncEvent list" where
  "syncUrl fetch url recentIDs db =
     (case extractId url of
        None \<Rightarrow> (Completed, recentIDs, db, [LogWarn url])
      | Some i \<Rightarrow>
          (let recentIDs' = recentIDs @ [i] in
           case ThreadDB_search_id i db of
             [] \<Rightarrow>
               (case fetch url of
                  Inl e \<Rightarrow> (Threw e, recentIDs', db, [])
                | Inr gameInfo \<Rightarrow>
                    (let threadInfo = TI_convert gameInfo
                     in (Completed, recentIDs', ThreadDB_insert threadInfo db,
                         [ThreadInsert threadInfo])))
           | (k, t) # _ \<Rightarrow>
               if t_url t = url then (Completed, recentIDs', db, [])
               else
                 (case fetch url of
                    Inl e \<Rightarrow> (Threw e, recentIDs', db, [])
                  | Inr gameInfo \<Rightarrow>
                      (let threadInfo =
                             (TI_convert gameInfo)
                               \<lparr>updateAvailable := True, markedAsRead := False\<rparr>
                       in (Completed, recentIDs', ThreadDB_write k threadInfo db,
                           [ThreadWrite k threadInfo])))))"

fun syncUrls ::
  "fetchByUrl \<Rightarrow> jsstring list \<Rightarrow> nat list \<Rightarrow> threadDB
     \<Rightarrow> status \<times> nat list \<times> threadDB \<times> syncEvent list" where
  "syncUrls fetch [] recentIDs db = (Completed, recentIDs, db, [])"
| "syncUrls fetch (url # urlList) recentIDs db =
     (case syncUrl fetch url recentIDs db of
        (Threw e, recentIDs', db', es) \<Rightarrow> (Threw e, recentIDs', db', es)
      | (Completed, recentIDs', db', es) \<Rightarrow>
          (case syncUrls fetch urlList recentIDs' db' of
             (st, recentIDs'', db'', es') \<Rightarrow> (st, recentIDs'', db'', es @ es')))"

text \<open>The second loop runs over \<open>threads\<close>, the rows read once before it.\<close>

fun removeUnsubscribed ::
  "nat list \<Rightarrow> (nat \<times> threadInfo) list \<Rightarrow> threadDB \<Rightarrow> threadDB \<times> syncEvent list" where
  "removeUnsubscribed recentIDs [] db = (db, [])"
| "removeUnsubscribed recentIDs ((k, t) # threads) db =
     (if t_id t \<notin> set recentIDs then
        (case removeUnsubscribed recentIDs threads (ThreadDB_delete k db) of
           (db', es) \<Rightarrow> (db', ThreadDelete k # es))
      else removeUnsubscribed recentIDs threads db)"

definition syncDatabaseWatchedThreads ::
  "fetchByUrl \<Rightarrow> jsstring list \<Rightarrow> threadDB \<Rightarrow> status \<times> threadDB \<times> syncEvent list" where
  "syncDatabaseWatchedThreads fetch urlList db =
     (case syncUrls fetch urlList [] db of
        (Threw e, recentIDs, db', es) \<Rightarrow> (Threw e, db', es)
      | (Completed, recentIDs, db', es) \<Rightarrow>
          (case removeUnsubscribed recentIDs (rows db') db' of
             (db'', es') \<Rightarrow> (Completed, db'', es @ es')))"

subsection \<open>getUpdatedThreads\<close>

text \<open>\<open>GameInfoExtended\<close>, a record of the game library: the remote metadata and the
  directory of the installed game.\<close>

record gameRecord =
  g_id :: nat
  g_name :: jsstring
  g_author :: jsstring
  g_version :: jsstring
  g_url :: jsstring
  g_isMod :: bool
  g_gameDirectory :: jsstring

text \<open>
  Modelled from the spec: \<open>window.GameDB\<close>, the persisted game library, is not among
  the sources. It is the list of its records in insertion order; \<open>search\<close> with a
  query on \<open>id\<close> finds the records with that remote identifier, \<open>insert\<close> adds one.
\<close>

type_synonym gameDB = "gameRecord list"

definition GameDB_search_id :: "nat \<Rightarrow> gameDB \<Rightarrow> gameRecord list" where
  "GameDB_search_id i db = filter (\<lambda>g. g_id g = i) db"

definition GameDB_insert :: "gameRecord \<Rightarrow> gameDB \<Rightarrow> gameDB" where
  "GameDB_insert g db = db @ [g]"

text \<open>
  Modelled from the spec: the query of \<open>window.ThreadDB.search\<close> with the filter
  \<open>updateAvailable = true and markedAsRead = false\<close> and the ordering hint
  \<open>name: 1\<close>, which the spec reads as ascending by name, case-insensitive. Names are
  compared after case folding with \<open>toUpperCase\<close>, unit by unit.
\<close>

definition ThreadDB_search_updated ::
  "(jsstring \<Rightarrow> jsstring) \<Rightarrow> threadDB \<Rightarrow> (nat \<times> threadInfo) list" where
  "ThreadDB_search_updated unicodeUpper db =
     sort_key (\<lambda>(k, t). toUpperCase unicodeUpper (t_name t))
       (filter (\<lambda>(k, t). updateAvailable t \<and> \<not> markedAsRead t) (rows db))"

fun excludeInstalled ::
  "gameDB \<Rightarrow> (nat \<times> threadInfo) list \<Rightarrow> (nat \<times> threadInfo) list
     \<Rightarrow> (nat \<times> threadInfo) list" where
  "excludeInstalled games [] result = result"
| "excludeInstalled games ((k, t) # threads) result =
     (let searchResult = GameDB_search_id (t_id t) games
      in if length searchResult = 0 then excludeInstalled games threads (result @ [(k, t)])
         else excludeInstalled games threads result)"

definition getUpdatedThreads ::
  "(jsstring \<Rightarrow> jsstring) \<Rightarrow> threadDB \<Rightarrow> gameDB \<Rightarrow> (nat \<times> threadInfo) list" where
  "getUpdatedThreads unicodeUpper db games =
     excludeInstalled games (ThreadDB_search_updated unicodeUpper db) []"

section \<open>Adding games\<close>

text \<open>The messages shown to the user: a translation key with its interpolation.
  The list of candidates of \<open>SameNameGamesMessage\<close> stands for the text the
  renderer builds from it.\<close>

datatype notice =
    NoGameFound jsstring
  | GameAlreadyListed jsstring
  | GameSuccessfullyAdded jsstring
  | MultipleDuplicateGames nat
  | SelectGameOption nat
  | SameNameGamesTitle
  | SameNameGamesMessage jsstring "gameInfo list"

datatype level = Info | Warning

datatype ingestEvent =
    Toast level notice
  | LogNoResults jsstring
  | MessageBoxError jsstring error
  | LogError jsstring error

text \<open>
  The calls that the ingestion of a directory awaits besides the search of the remote
  catalog: a translation, the message box with the candidates, a search of the game
  library by identifier and an insertion into it. Each of them may be rejected. The
  parameter \<open>rejects\<close> of the functions below gives, for a call, the error it is
  rejected with, or \<open>None\<close> when it succeeds.
\<close>

datatype awaited =
    Translate notice
  | MessageBox jsstring "gameInfo list"
  | GameDBSearch nat
  | GameDBInsert gameRecord

type_synonym rejection = "awaited \<Rightarrow> error option"

text \<open>The error of the first rejected call of a sequence of awaited calls.\<close>

fun firstRejection :: "rejection \<Rightarrow> awaited list \<Rightarrow> error option" where
  "firstRejection rejects [] = None"
| "firstRejection rejects (c # cs) =
     (case rejects c of Some e \<Rightarrow> Some e | None \<Rightarrow> firstRejection rejects cs)"

subsection \<open>getUnlistedGamesInArrayOfPath\<close>

text \<open>
  The loop over the paths, with the paths to ingest and the cleaned names of the
  duplicates it collects, and the function around it, which returns the former and
  shows the warnings for the latter. The function reads the whole library with
  \<open>window.GameDB.search({})\<close>: the library is its parameter \<open>games\<close>. The
  search and the translations of the warnings are taken to succeed here.
\<close>

fun checkPaths ::
  "(jsstring \<Rightarrow> jsstring) \<Rightarrow> (jsstring \<Rightarrow> jsstring) \<Rightarrow> jsstring list \<Rightarrow> jsstring list
     \<Rightarrow> jsstring list \<times> jsstring list \<Rightarrow> jsstring list \<times> jsstring list" where
  "checkPaths unicodeUpper getDirName listedGameNames [] acc = acc"
| "checkPaths unicodeUpper getDirName listedGameNames (path # paths)
     (gameFolderPaths, alreadyPresentGames) =
     (let unparsedName = getDirName path;
          gamename = cleanGameName unparsedName
      in if toUpperCase unicodeUpper gamename \<notin> set listedGameNames
         then checkPaths unicodeUpper getDirName listedGameNames paths
                (gameFolderPaths @ [path], alreadyPresentGames)
         else checkPaths unicodeUpper getDirName listedGameNames paths
                (gameFolderPaths, alreadyPresentGames @ [gamename]))"

definition MAX_NUMBER_OF_PRESENT_GAMES_FOR_MESSAGES :: nat where
  "MAX_NUMBER_OF_PRESENT_GAMES_FOR_MESSAGES = 5"

definition getUnlistedGamesInArrayOfPath ::
  "(jsstring \<Rightarrow> jsstring) \<Rightarrow> (jsstring \<Rightarrow> jsstring) \<Rightarrow> jsstring list \<Rightarrow> gameDB
     \<Rightarrow> jsstring list \<times> ingestEvent list" where
  "getUnlistedGamesInArrayOfPath unicodeUpper getDirName paths games =
     (let listedGameNames =
            map (\<lambda>game. toUpperCase unicodeUpper (cleanGameName (g_name game))) games
      in case checkPaths unicodeUpper getDirName listedGameNames paths ([], []) of
           (gameFolderPaths, alreadyPresentGames) \<Rightarrow>
             (gameFolderPaths,
              if length alreadyPresentGames \<le> MAX_NUMBER_OF_PRESENT_GAMES_FOR_MESSAGES
              then map (\<lambda>gamename. Toast Warning (GameAlreadyListed gamename))
                     alreadyPresentGames
              else [Toast Warning (MultipleDuplicateGames (length alreadyPresentGames))]))"

subsection \<open>requireUserToSelectGameWithSameName\<close>

text \<open>
  The message box has one button per candidate, named by the candidate's identifier,
  and a button \<open>close\<close>. The user is outside the program: the parameter \<open>chooseButton\<close>
  gives the result of the message box for a message and a list of candidates:
  \<open>Some (Select n)\<close> for a button whose name parses to \<open>n\<close>, and \<open>None\<close> when the
  call resolves with no result, on which reading \<open>result.button\<close> throws a
  \<open>TypeError\<close>. Before the message box the function awaits the translation of one
  label per candidate, of the title and of the message; the first rejected call
  throws.
\<close>

datatype button = Close | Select nat

type_synonym chooser = "jsstring \<Rightarrow> gameInfo list \<Rightarrow> button option"

definition requireUserToSelectGameWithSameName ::
  "rejection \<Rightarrow> chooser \<Rightarrow> jsstring \<Rightarrow> gameInfo list \<Rightarrow> error + gameInfo option" where
  "requireUserToSelectGameWithSameName rejects chooseButton desiredGameName listOfGames =
     (case firstRejection rejects
             (map (\<lambda>i. Translate (SelectGameOption (i + 1))) [0..<length listOfGames]
              @ [Translate SameNameGamesTitle,
                 Translate (SameNameGamesMessage desiredGameName listOfGames),
                 MessageBox desiredGameName listOfGames]) of
        Some e \<Rightarrow> Inl e
      | None \<Rightarrow>
          (case chooseButton desiredGameName listOfGames of
             None \<Rightarrow> Inl (Error (js ''TypeError''))
           | Some Close \<Rightarrow> Inr None
           | Some (Select n) \<Rightarrow> Inr (find (\<lambda>x. gi_id x = n) listOfGames)))"

subsection \<open>getGameFromPath and getGameFromPaths\<close>

text \<open>
  Modelled from the spec: \<open>window.GIE.convert\<close>, the conversion of remote metadata
  into a record of the library, is not among the sources. The spec has the record
  carry the remote metadata; the directory of the game is empty until the caller
  sets it.
\<close>

definition GIE_convert :: "gameInfo \<Rightarrow> gameRecord" where
  "GIE_convert g =
     \<lparr>g_id = gi_id g, g_name = gi_name g, g_author = gi_author g,
      g_version = gi_version g, g_url = gi_url g, g_isMod = gi_isMod g,
      g_gameDirectory = []\<rparr>"

text \<open>
  The status is \<open>Threw e\<close> when an awaited call is rejected with \<open>e\<close>: the search
  of the remote catalog, a translation, the selection among several candidates, the
  search of the library or the insertion. The exception leaves the function with the
  library as it is at that point: an insertion that is rejected adds nothing, and a
  rejected translation of the last message leaves the record inserted.
\<close>

definition getGameFromPath ::
  "(jsstring \<Rightarrow> jsstring) \<Rightarrow> (jsstring \<Rightarrow> jsstring) \<Rightarrow> searchByName \<Rightarrow> chooser \<Rightarrow> rejection
     \<Rightarrow> jsstring \<Rightarrow> gameDB \<Rightarrow> status \<times> gameDB \<times> ingestEvent list" where
  "getGameFromPath unicodeUpper getDirName search chooseButton rejects path db =
     (let dirInfo = getDirInfo unicodeUpper getDirName path in
      case search (di_name dirInfo) (di_mod dirInfo) of
        Inl e \<Rightarrow> (Threw e, db, [])
      | Inr gamelist \<Rightarrow>
          (case gamelist of
             [] \<Rightarrow>
               (case rejects (Translate (NoGameFound (di_name dirInfo))) of
                  Some e \<Rightarrow> (Threw e, db, [])
                | None \<Rightarrow>
                    (Completed, db,
                     [Toast Warning (NoGameFound (di_name dirInfo)),
                      LogNoResults (di_name dirInfo)]))
           | first # others \<Rightarrow>
               (let selectedGame =
                      (if length gamelist > 1 then
                         (let baseMessage =
                                di_name dirInfo @ js '' ('' @ di_version dirInfo @ js '')'';
                              gameMessage =
                                (if di_mod dirInfo then baseMessage @ js '' [MOD]''
                                 else baseMessage)
                          in requireUserToSelectGameWithSameName rejects chooseButton
                               gameMessage gamelist)
                       else Inr (Some first))
                in case selectedGame of
                     Inl e \<Rightarrow> (Threw e, db, [])
                   | Inr None \<Rightarrow> (Completed, db, [])
                   | Inr (Some selected) \<Rightarrow>
                       (case rejects (GameDBSearch (gi_id selected)) of
                          Some e \<Rightarrow> (Threw e, db, [])
                        | None \<Rightarrow>
                            (let entry = GameDB_search_id (gi_id selected) db in
                             if length entry \<noteq> 0 then
                               (case rejects (Translate (GameAlreadyListed (gi_name selected))) of
                                  Some e \<Rightarrow> (Threw e, db, [])
                                | None \<Rightarrow>
                                    (Completed, db,
                                     [Toast Warning (GameAlreadyListed (gi_name selected))]))
                             else
                               (let converted =
                                      (GIE_convert selected)
                                        \<lparr>g_version := di_version dirInfo,
                                         g_gameDirectory := di_path dirInfo\<rparr>
                                in case rejects (GameDBInsert converted) of
                                     Some e \<Rightarrow> (Threw e, db, [])
                                   | None \<Rightarrow>
                                       (case rejects
                                               (Translate
                                                  (GameSuccessfullyAdded (gi_name selected))) of
                                          Some e \<Rightarrow> (Threw e, GameDB_insert converted db, [])
                                        | None \<Rightarrow>
                                            (Completed, GameDB_insert converted db,
                                             [Toast Info
                                                (GameSuccessfullyAdded
                                                   (gi_name selected))]))))))))"

text \<open>Every iteration runs \<open>getGameFromPath\<close> in a \<open>try\<close> block: whatever it
  throws is shown in a message box and logged, and the loop goes on.\<close>

fun getGameFromPaths ::
  "(jsstring \<Rightarrow> jsstring) \<Rightarrow> (jsstring \<Rightarrow> jsstring) \<Rightarrow> searchByName \<Rightarrow> chooser \<Rightarrow> rejection
     \<Rightarrow> jsstring list \<Rightarrow> gameDB \<Rightarrow> gameDB \<times> ingestEvent list" where
  "getGameFromPaths unicodeUpper getDirName search chooseButton rejects [] db = (db, [])"
| "getGameFromPaths unicodeUpper getDirName search chooseButton rejects (path # paths) db =
     (case getGameFromPath unicodeUpper getDirName search chooseButton rejects path db of
        (Completed, db', es) \<Rightarrow>
          (case getGameFromPaths unicodeUpper getDirName search chooseButton rejects paths db' of
             (db'', es') \<Rightarrow> (db'', es @ es'))
      | (Threw e, db', es) \<Rightarrow>
          (case getGameFromPaths unicodeUpper getDirName search chooseButton rejects paths db' of
             (db'', es') \<Rightarrow>
               (db'', es @ [MessageBoxError path e, LogError path e] @ es')))"

section \<open>Invariants of the thread store\<close>

text \<open>
  The store gives every row its own internal identifier, below the next free one,
  and the synchronizer keeps at most one record per remote identifier. Both hold of
  the empty store.
\<close>

definition keysOk :: "threadDB \<Rightarrow> bool" where
  "keysOk db =
     (distinct (map fst (rows db)) \<and> list_all (\<lambda>k. k < nextId db) (map fst (rows db)))"

definition storedIds :: "threadDB \<Rightarrow> nat set" where
  "storedIds db = set (map (\<lambda>(k, t). t_id t) (rows db))"

definition idsUnique :: "threadDB \<Rightarrow> bool" where
  "idsUnique db = distinct (map (\<lambda>(k, t). t_id t) (rows db))"

section \<open>Assumptions on the remote catalog and the watch list\<close>

text \<open>
  The remote catalog is faithful on a URL with an identifier when the fetch succeeds
  and the info it returns carries that URL and that identifier.
\<close>

definition faithfulOn :: "fetchByUrl \<Rightarrow> jsstring \<Rightarrow> bool" where
  "faithfulOn fetch url =
     (case extractId url of
        None \<Rightarrow> True
      | Some i \<Rightarrow> (case fetch url of Inl e \<Rightarrow> False | Inr g \<Rightarrow> gi_id g = i \<and> gi_url g = url))"

definition faithful :: "fetchByUrl \<Rightarrow> jsstring list \<Rightarrow> bool" where
  "faithful fetch urlList = list_all (faithfulOn fetch) urlList"

text \<open>No two different URLs of the list carry the same identifier.\<close>

definition oneUrlPerId :: "jsstring list \<Rightarrow> bool" where
  "oneUrlPerId urlList =
     list_all (\<lambda>u. list_all (\<lambda>v. extractId u = None \<or> extractId v \<noteq> extractId u \<or> v = u) urlList)
       urlList"

text \<open>
  What one iteration of the first loop does to a stored record of the identifier of
  its URL, and what the loop over a list of URLs does to it.
\<close>

definition stepRow :: "fetchByUrl \<Rightarrow> jsstring \<Rightarrow> threadInfo \<Rightarrow> threadInfo" where
  "stepRow fetch url t =
     (if extractId url = Some (t_id t) \<and> t_url t \<noteq> url then
        (case fetch url of
           Inl e \<Rightarrow> t
         | Inr g \<Rightarrow> (TI_convert g)\<lparr>updateAvailable := True, markedAsRead := False\<rparr>)
      else t)"

definition replay :: "fetchByUrl \<Rightarrow> jsstring list \<Rightarrow> threadInfo \<Rightarrow> threadInfo" where
  "replay fetch urlList t = foldl (\<lambda>t' url. stepRow fetch url t') t urlList"

section \<open>The spec in its own words\<close>

text \<open>
  The identifier of a watch URL, following the words of the spec: the integer value of
  the trailing numeric segment of the URL, read as the last run of decimal digits in
  it.
\<close>

definition trailingNumericSegment :: "jsstring \<Rightarrow> nat option" where
  "trailingNumericSegment url =
     (let r = dropWhile (\<lambda>c. \<not> isDigit c) (rev url)
      in if r = [] then None else Some (decimalValue (rev (takeWhile isDigit r))))"

text \<open>
  The version of a directory name, following the words of the spec: the marker \<open>[V.\<close> is
  searched without regard to the case of its letter, and the version is the text from
  just after the first marker to the next closing bracket, \<open>Unknown\<close> without a
  marker. Where no closing bracket follows the marker the spec is silent; the empty
  version is what the code gives there.
\<close>

fun markerAt :: "jsstring \<Rightarrow> bool" where
  "markerAt (a # b # c # rest) = (a = 91 \<and> (b = 86 \<or> b = 118) \<and> c = 46)"
| "markerAt _ = False"

fun markerIndex :: "jsstring \<Rightarrow> nat option" where
  "markerIndex [] = None"
| "markerIndex (c # cs) =
     (if markerAt (c # cs) then Some 0 else map_option Suc (markerIndex cs))"

definition versionBySpec :: "jsstring \<Rightarrow> jsstring" where
  "versionBySpec name =
     (case markerIndex name of
        None \<Rightarrow> js ''Unknown''
      | Some i \<Rightarrow>
          (let rest = drop (i + 3) name
           in if 93 \<in> set rest then takeWhile (\<lambda>c. c \<noteq> 93) rest else []))"

section \<open>Example inputs\<close>

text \<open>A catalog for the examples: it answers every URL with a thread numbered 123
  that carries the URL asked for.\<close>

definition catalog123 :: fetchByUrl where
  "catalog123 u =
     Inr \<lparr>gi_id = 123, gi_name = js ''Game'', gi_author = [], gi_version = [],
          gi_url = u, gi_isMod = False\<rparr>"

text \<open>A catalog for the examples that answers every URL with the identifier
  extracted from it and the URL itself.\<close>

definition echoCatalog :: fetchByUrl where
  "echoCatalog u =
     (case extractId u of
        None \<Rightarrow> Inl (Error u)
      | Some i \<Rightarrow>
          Inr \<lparr>gi_id = i, gi_name = js ''Game'', gi_author = [], gi_version = [],
               gi_url = u, gi_isMod = False\<rparr>)"

text \<open>A catalog for the examples that answers with the identifier of the URL and
  the URL in a canonical form, with a slash added.\<close>

definition slashCatalog :: fetchByUrl where
  "slashCatalog u =
     (case extractId u of
        None \<Rightarrow> Inl (Error u)
      | Some i \<Rightarrow>
          Inr \<lparr>gi_id = i, gi_name = js ''Game'', gi_author = [], gi_version = [],
               gi_url = u @ js ''/'', gi_isMod = False\<rparr>)"

text \<open>A store for the examples: one thread, numbered 123, watched at an older URL.\<close>

definition storeWith123 :: threadDB where
  "storeWith123 =
     \<lparr>rows = [(0, \<lparr>t_id = 123, t_url = js ''https://f95zone.to/threads/game.123/'',
                     t_name = js ''Game'', updateAvailable = False, markedAsRead = True\<rparr>)],
      nextId = 1\<rparr>"

definition storeWith7 :: threadDB where
  "storeWith7 =
     \<lparr>rows = [(0, \<lparr>t_id = 7, t_url = js ''https://f95zone.to/threads/old.7/'',
                     t_name = js ''Old'', updateAvailable = False, markedAsRead = False\<rparr>)],
      nextId = 1\<rparr>"

text \<open>Threads and a game for the examples of \<open>getUpdatedThreads\<close>.\<close>

definition threeThreads :: threadDB where
  "threeThreads =
     \<lparr>rows = [(0, \<lparr>t_id = 1, t_url = js ''t.1'', t_name = js ''beta'',
                     updateAvailable = True, markedAsRead = False\<rparr>),
              (1, \<lparr>t_id = 2, t_url = js ''t.2'', t_name = js ''Alpha'',
                     updateAvailable = True, markedAsRead = False\<rparr>),
              (2, \<lparr>t_id = 3, t_url = js ''t.3'', t_name = js ''Aaa'',
                     updateAvailable = True, markedAsRead = False\<rparr>),
              (3, \<lparr>t_id = 4, t_url = js ''t.4'', t_name = js ''Read'',
                     updateAvailable = True, markedAsRead = True\<rparr>)],
      nextId = 4\<rparr>"

definition gameThree :: gameRecord where
  "gameThree =
     \<lparr>g_id = 3, g_name = js ''Aaa'', g_author = [], g_version = js ''1.0'', g_url = js ''t.3'',
      g_isMod = False, g_gameDirectory = js ''C:/games/Aaa''\<rparr>"

text \<open>A library, candidates, catalogs and a user for the examples of the ingestion.
  The catalog \<open>catalogX\<close> answers every search with the same three candidates, none
  of them a mod; \<open>flakyCatalog\<close> fails on the name \<open>Broken\<close>.\<close>

definition gameA :: gameRecord where
  "gameA =
     \<lparr>g_id = 5, g_name = js ''Game A'', g_author = [], g_version = js ''1.0'', g_url = js ''t.5'',
      g_isMod = False, g_gameDirectory = js ''Game A''\<rparr>"

definition candidate :: "nat \<Rightarrow> gameInfo" where
  "candidate n =
     \<lparr>gi_id = n, gi_name = js ''Game X'', gi_author = js ''dev'', gi_version = js ''2.0'',
      gi_url = js ''t'', gi_isMod = False\<rparr>"

definition catalogX :: searchByName where
  "catalogX name isMod = Inr [candidate 76, candidate 77, candidate 78]"

definition flakyCatalog :: searchByName where
  "flakyCatalog name isMod =
     (if name = js ''Broken'' then Inl (Error (js ''timeout'')) else Inr [candidate 77])"

definition choose77 :: chooser where
  "choose77 message candidates = Some (Select 77)"

text \<open>A stand-in for \<open>toUpperCase\<close> outside Latin-1 and an outside world that
  rejects no call. The names of the examples are within Latin-1, so that the stand-in
  is never consulted.\<close>

definition keepUnits :: "jsstring \<Rightarrow> jsstring" where
  "keepUnits s = s"

definition noRejection :: rejection where
  "noRejection call = None"

text \<open>The Unicode table on the small letters of the basic Russian alphabet (units
  1072 to 1103, whose capitals are 32 below) and on Latin-1, as a stand-in for the
  examples with Cyrillic names; the directory name \<open>igra\<close> in Cyrillic small
  letters; and a game of the library with that name and a capital first letter
  (unit 1048).\<close>

definition upperCyrillic :: "jsstring \<Rightarrow> jsstring" where
  "upperCyrillic s =
     concat (map (\<lambda>c. if 1072 \<le> c \<and> c \<le> 1103 then [c - 32] else upperUnit c) s)"

definition igra :: jsstring where
  "igra = [1080, 1075, 1088, 1072]"

definition gameIgra :: gameRecord where
  "gameIgra =
     \<lparr>g_id = 9, g_name = [1048, 1075, 1088, 1072], g_author = [], g_version = js ''1.0'',
      g_url = js ''t.9'', g_isMod = False, g_gameDirectory = js ''C:/games/igra''\<rparr>"

text \<open>An outside world whose game library rejects the insertion of the directory
  \<open>Full\<close>, and one that rejects the translation of the last message.\<close>

definition fullStore :: rejection where
  "fullStore call =
     (case call of
        GameDBInsert r \<Rightarrow>
          (if g_gameDirectory r = js ''Full'' then Some (Error (js ''disk full'')) else None)
      | _ \<Rightarrow> None)"

definition noTranslation :: rejection where
  "noTranslation call =
     (case call of
        Translate (GameSuccessfullyAdded name) \<Rightarrow> Some (Error (js ''no translation''))
      | _ \<Rightarrow> None)"

section \<open>Properties\<close>

text \<open>A number below \<open>2 ^ 53\<close> is a double as it is.\<close>

lemma roundToDouble_exact: "n < 2 ^ 53 \<Longrightarrow> roundToDouble n = n"
  by (simp add: roundToDouble_def)

text \<open>The definitions that evaluate a synchronization pass on an example.\<close>

lemmas sync_eval = syncDatabaseWatchedThreads_def syncUrl_def extractId_def replaceDot_def
  parseInt_def decimalValue_def roundToDouble_def isDigit_def js_def ThreadDB_search_id_def
  ThreadDB_insert_def ThreadDB_write_def ThreadDB_delete_def TI_convert_def emptyThreadDB_def
  Let_def

subsection \<open>Version of a directory name\<close>

text \<open>On a name of ASCII units upper-casing keeps every index, and the function
  returns the version as the spec words it.\<close>

lemma upperUnit_ascii: "c < 128 \<Longrightarrow> upperUnit c = [if 97 \<le> c \<and> c \<le> 122 then c - 32 else c]"
  by (simp add: upperUnit_def)

lemma toUpperCase_latin1:
  "list_all (\<lambda>c. c < 256) s \<Longrightarrow> toUpperCase unicodeUpper s = concat (map upperUnit s)"
  by (simp add: toUpperCase_def)

lemma toUpperCase_ascii:
  assumes "\<forall>c \<in> set s. c < 128"
  shows "toUpperCase unicodeUpper s
         = map (\<lambda>c. if 97 \<le> c \<and> c \<le> 122 then c - 32 else c) s"
proof -
  have "list_all (\<lambda>c. c < 256) s" using assms by (auto simp: list_all_iff)
  then have "toUpperCase unicodeUpper s = concat (map upperUnit s)" by (rule toUpperCase_latin1)
  also have "\<dots> = map (\<lambda>c. if 97 \<le> c \<and> c \<le> 122 then c - 32 else c) s"
    using assms by (induction s) (simp_all add: upperUnit_ascii)
  finally show ?thesis .
qed

lemma startsWith_marker:
  "startsWith (map (\<lambda>c. if 97 \<le> c \<and> c \<le> 122 then c - 32 else c) s) [91, 86, 46] = markerAt s"
proof (cases s)
  case Nil
  then show ?thesis by (simp add: startsWith_def)
next
  case (Cons a s1)
  show ?thesis
  proof (cases s1)
    case Nil
    with Cons show ?thesis by (simp add: startsWith_def)
  next
    case (Cons b s2)
    note c2 = this
    show ?thesis
    proof (cases s2)
      case Nil
      with \<open>s = a # s1\<close> c2 show ?thesis by (simp add: startsWith_def)
    next
      case (Cons c s3)
      with \<open>s = a # s1\<close> c2 show ?thesis by (simp add: startsWith_def) arith
    qed
  qed
qed

lemma indexOfAux_marker:
  "indexOfAux [91, 86, 46] (map (\<lambda>c. if 97 \<le> c \<and> c \<le> 122 then c - 32 else c) s) i
     = (case markerIndex s of None \<Rightarrow> - 1 | Some j \<Rightarrow> int (i + j))"
proof (induction s arbitrary: i)
  case Nil
  then show ?case by simp
next
  case (Cons c cs)
  have "startsWith (map (\<lambda>c. if 97 \<le> c \<and> c \<le> 122 then c - 32 else c) (c # cs)) [91, 86, 46]
        = markerAt (c # cs)" by (rule startsWith_marker)
  then show ?case using Cons.IH [of "Suc i"]
    by (simp del: markerAt.simps split: option.splits)
qed

lemma indexOfAux_bracket:
  "indexOfAux [93] s i
     = (if 93 \<in> set s then int (i + length (takeWhile (\<lambda>c. c \<noteq> 93) s)) else - 1)"
  by (induction s arbitrary: i) (auto simp: startsWith_def)

lemma markerIndex_length: "markerIndex s = Some j \<Longrightarrow> j + 3 \<le> length s"
proof (induction s arbitrary: j)
  case Nil
  then show ?case by simp
next
  case (Cons c cs)
  show ?case
  proof (cases "markerAt (c # cs)")
    case True
    then obtain b d r where "cs = b # d # r" by (cases cs rule: markerAt.cases) auto
    with True Cons.prems show ?thesis by simp
  next
    case False
    with Cons.prems obtain j' where "markerIndex cs = Some j'" "j = Suc j'" by auto
    with Cons.IH show ?thesis by simp
  qed
qed

lemma getGameVersionFromName_ascii:
  assumes "\<forall>c \<in> set name. c < 128"
  shows "getGameVersionFromName unicodeUpper name = versionBySpec name"
proof (cases "markerIndex name")
  case None
  then show ?thesis
    using assms
    by (simp add: getGameVersionFromName_def versionBySpec_def includesStr_def indexOf_def
        toUpperCase_ascii indexOfAux_marker js_def)
next
  case (Some j)
  from markerIndex_length [OF Some] have l: "j + 3 \<le> length name" .
  let ?rest = "drop (j + 3) name"
  have up: "indexOf (toUpperCase unicodeUpper name) (js ''[V.'') 0 = int j"
    using assms Some by (simp add: indexOf_def toUpperCase_ascii indexOfAux_marker js_def)
  have inc: "includesStr (toUpperCase unicodeUpper name) (js ''[V.'')"
    using up by (simp add: includesStr_def)
  have len: "int (length (js ''[V.'')) = 3" by (simp add: js_def)
  have k: "min (nat (int j + 3)) (length name) = j + 3" using l by simp
  have e: "indexOf name (js '']'') (int j + 3)
           = (if 93 \<in> set ?rest then int (j + 3 + length (takeWhile (\<lambda>c. c \<noteq> 93) ?rest)) else - 1)"
    unfolding indexOf_def Let_def k by (simp add: js_def indexOfAux_bracket)
  have "substr name (int j + 3) (indexOf name (js '']'') (int j + 3) - (int j + 3))
        = (if 93 \<in> set ?rest then takeWhile (\<lambda>c. c \<noteq> 93) ?rest else [])"
  proof (cases "93 \<in> set ?rest")
    case True
    let ?n = "length (takeWhile (\<lambda>c. c \<noteq> 93) ?rest)"
    have "take ?n ?rest = takeWhile (\<lambda>c. c \<noteq> 93) ?rest"
      by (metis append_eq_conv_conj takeWhile_dropWhile_id)
    moreover have "min (int j + 3) (int (length name)) = int j + 3" using l by simp
    ultimately show ?thesis using True e l
      by (auto simp: substr_def Let_def nat_add_distrib)
  next
    case False
    with e show ?thesis by (simp add: substr_def Let_def)
  qed
  then show ?thesis
    using inc up len Some
    by (simp add: getGameVersionFromName_def versionBySpec_def Let_def)
qed

text \<open>
  C10. The version is meant to be the text between the marker \<open>[V.\<close>, found without
  regard to case, and the next closing bracket. The function finds the marker in the
  upper-cased copy of the name and uses that index in the name itself. Upper-casing
  U+00DF gives two units, so for the directory \<open>Stra\<ss>e [v.1.0]\<close> (the sharp s is
  unit 223) the index is one too far: the version comes out as \<open>.0\<close>, where the
  text between the marker and the bracket is \<open>1.0\<close>.
\<close>

theorem getGameVersionFromName_sharp_s:
  "getGameVersionFromName unicodeUpper (js ''Stra'' @ [223] @ js ''e [v.1.0]'') = js ''.0''
   \<and> versionBySpec (js ''Stra'' @ [223] @ js ''e [v.1.0]'') = js ''1.0''"
  by (simp add: getGameVersionFromName_def versionBySpec_def js_def toUpperCase_def upperUnit_def
      startsWith_def indexOf_def includesStr_def substr_def)

subsection \<open>A thread seen for the first time\<close>

lemma extractId_game_123:
  "extractId (js ''https://f95zone.to/threads/game.123/'') = Some 123"
  by (simp add: sync_eval)

text \<open>
  C9. When the identifier extracted from a URL is that of no stored thread and the
  fetch succeeds, the iteration inserts the converted remote info as a new row, with
  \<open>updateAvailable = false\<close> and \<open>markedAsRead = false\<close>. In particular a pass over
  that single URL from the empty store, when the remote info carries the identifier
  of the URL, ends with exactly this one row.
\<close>

theorem sync_inserts_unknown_thread:
  assumes "extractId url = Some i" and "fetch url = Inr g"
  shows "(ThreadDB_search_id i db = [] \<longrightarrow>
            syncUrl fetch url ids db =
              (Completed, ids @ [i],
               \<lparr>rows = rows db @ [(nextId db, TI_convert g)], nextId = Suc (nextId db)\<rparr>,
               [ThreadInsert (TI_convert g)]))
         \<and> \<not> updateAvailable (TI_convert g) \<and> \<not> markedAsRead (TI_convert g)
         \<and> (gi_id g = i \<longrightarrow>
              syncDatabaseWatchedThreads fetch [url] emptyThreadDB =
                (Completed, \<lparr>rows = [(0, TI_convert g)], nextId = 1\<rparr>,
                 [ThreadInsert (TI_convert g)])
              \<and> t_id (TI_convert g) = i)"
  using assms
  by (simp add: syncUrl_def ThreadDB_insert_def TI_convert_def syncDatabaseWatchedThreads_def
      emptyThreadDB_def ThreadDB_search_id_def Let_def ThreadDB_delete_def)

theorem sync_inserts_unknown_thread_witness:
  "syncDatabaseWatchedThreads catalog123 [js ''https://f95zone.to/threads/game.123/'']
     emptyThreadDB =
     (Completed,
      \<lparr>rows = [(0, \<lparr>t_id = 123, t_url = js ''https://f95zone.to/threads/game.123/'',
                      t_name = js ''Game'', updateAvailable = False, markedAsRead = False\<rparr>)],
       nextId = 1\<rparr>,
      [ThreadInsert \<lparr>t_id = 123, t_url = js ''https://f95zone.to/threads/game.123/'',
                      t_name = js ''Game'', updateAvailable = False, markedAsRead = False\<rparr>])"
  using sync_inserts_unknown_thread [OF extractId_game_123, of catalog123 _ emptyThreadDB "[]"]
  by (simp add: catalog123_def TI_convert_def)

subsection \<open>The loops of a synchronization pass\<close>

lemma keysOk_empty: "keysOk emptyThreadDB"
  by (simp add: keysOk_def emptyThreadDB_def)

lemma idsUnique_empty: "idsUnique emptyThreadDB"
  by (simp add: idsUnique_def emptyThreadDB_def)

lemma keysOk_insert: "keysOk db \<Longrightarrow> keysOk (ThreadDB_insert t db)"
  by (auto simp: keysOk_def ThreadDB_insert_def list_all_iff less_Suc_eq)

lemma write_keys: "map fst (rows (ThreadDB_write k t db)) = map fst (rows db)"
  by (auto simp: ThreadDB_write_def)

lemma keysOk_write: "keysOk db \<Longrightarrow> keysOk (ThreadDB_write k t db)"
  unfolding keysOk_def write_keys by (simp add: ThreadDB_write_def)

lemma keysOk_delete: "keysOk db \<Longrightarrow> keysOk (ThreadDB_delete k db)"
  by (auto simp: keysOk_def ThreadDB_delete_def list_all_iff distinct_map_filter)

lemma keysOk_syncUrl:
  "keysOk db \<Longrightarrow> syncUrl fetch url ids db = (st, ids', db', es) \<Longrightarrow> keysOk db'"
  by (auto simp: syncUrl_def Let_def keysOk_insert keysOk_write
      split: option.splits list.splits sum.splits if_splits)

lemma syncUrls_Cons_cases:
  assumes "syncUrls fetch (u # us) ids db = (st, ids', db', es)"
  obtains (stop) e where "syncUrl fetch u ids db = (Threw e, ids', db', es)" and "st = Threw e"
  | (go) ids1 db1 es1 es2 where "syncUrl fetch u ids db = (Completed, ids1, db1, es1)"
      and "syncUrls fetch us ids1 db1 = (st, ids', db', es2)" and "es = es1 @ es2"
proof -
  obtain st1 ids1 db1 es1 where s: "syncUrl fetch u ids db = (st1, ids1, db1, es1)"
    by (cases "syncUrl fetch u ids db") auto
  show thesis
  proof (cases st1)
    case Completed
    obtain st2 ids2 db2 es2 where r: "syncUrls fetch us ids1 db1 = (st2, ids2, db2, es2)"
      by (cases "syncUrls fetch us ids1 db1") auto
    with assms s Completed show thesis by (intro go [of ids1 db1 es1 es2]) auto
  next
    case (Threw e)
    with assms s show thesis by (intro stop [of e]) auto
  qed
qed

lemma keysOk_syncUrls:
  "keysOk db \<Longrightarrow> syncUrls fetch urls ids db = (st, ids', db', es) \<Longrightarrow> keysOk db'"
proof (induction urls arbitrary: ids db es)
  case Nil
  then show ?case by simp
next
  case (Cons u us)
  from Cons.prems(2) show ?case
  proof (cases rule: syncUrls_Cons_cases)
    case (stop e)
    with Cons.prems(1) show ?thesis by (auto dest: keysOk_syncUrl)
  next
    case (go ids1 db1 es1 es2)
    from Cons.prems(1) go(1) have "keysOk db1" by (rule keysOk_syncUrl)
    then show ?thesis using go(2) by (rule Cons.IH)
  qed
qed

lemma removeUnsubscribed_general:
  "removeUnsubscribed ids ts db =
     (\<lparr>rows = filter (\<lambda>(k, t). k \<notin> fst ` {r \<in> set ts. t_id (snd r) \<notin> set ids}) (rows db),
       nextId = nextId db\<rparr>,
      map ThreadDelete (map fst (filter (\<lambda>(k, t). t_id t \<notin> set ids) ts)))"
proof (induction ts arbitrary: db)
  case Nil
  then show ?case by simp
next
  case (Cons r ts)
  obtain k t where r: "r = (k, t)" by (cases r)
  show ?case
  proof (cases "t_id t \<in> set ids")
    case True
    then have "{x \<in> set (r # ts). t_id (snd x) \<notin> set ids} = {x \<in> set ts. t_id (snd x) \<notin> set ids}"
      using r by auto
    then show ?thesis using True r Cons.IH by simp
  next
    case False
    then have e: "{x \<in> set (r # ts). t_id (snd x) \<notin> set ids} = insert r {x \<in> set ts. t_id (snd x) \<notin> set ids}"
      using r by auto
    have "filter (\<lambda>(k', t'). k' \<notin> fst ` {x \<in> set ts. t_id (snd x) \<notin> set ids})
            (filter (\<lambda>(k', t'). k' \<noteq> k) (rows db))
          = filter (\<lambda>(k', t'). k' \<notin> fst ` {x \<in> set (r # ts). t_id (snd x) \<notin> set ids}) (rows db)"
      unfolding e using r by (auto intro: filter_cong)
    then show ?thesis using False r
      by (simp add: Cons.IH ThreadDB_delete_def del: set_simps)
  qed
qed

lemma removeUnsubscribed_rows:
  assumes "keysOk db"
  shows "removeUnsubscribed ids (rows db) db =
     (\<lparr>rows = filter (\<lambda>(k, t). t_id t \<in> set ids) (rows db), nextId = nextId db\<rparr>,
      map ThreadDelete (map fst (filter (\<lambda>(k, t). t_id t \<notin> set ids) (rows db))))"
proof -
  have d: "distinct (map fst (rows db))" using assms by (simp add: keysOk_def)
  have "filter (\<lambda>(k, t). k \<notin> fst ` {r \<in> set (rows db). t_id (snd r) \<notin> set ids}) (rows db)
        = filter (\<lambda>(k, t). t_id t \<in> set ids) (rows db)"
  proof (rule filter_cong [OF refl])
    fix x assume x: "x \<in> set (rows db)"
    obtain k t where xe: "x = (k, t)" by (cases x)
    have "k \<in> fst ` {r \<in> set (rows db). t_id (snd r) \<notin> set ids} \<longleftrightarrow> t_id t \<notin> set ids"
    proof
      assume "k \<in> fst ` {r \<in> set (rows db). t_id (snd r) \<notin> set ids}"
      then obtain t' where m: "(k, t') \<in> set (rows db)" and n: "t_id t' \<notin> set ids" by auto
      from d m x xe have "t' = t" by (meson eq_key_imp_eq_value)
      with n show "t_id t \<notin> set ids" by simp
    next
      assume "t_id t \<notin> set ids"
      with x xe show "k \<in> fst ` {r \<in> set (rows db). t_id (snd r) \<notin> set ids}" by force
    qed
    then show "(case x of (k, t) \<Rightarrow> k \<notin> fst ` {r \<in> set (rows db). t_id (snd r) \<notin> set ids})
               = (case x of (k, t) \<Rightarrow> t_id t \<in> set ids)"
      using xe by simp
  qed
  then show ?thesis by (simp add: removeUnsubscribed_general)
qed

lemma syncUrl_ids:
  "syncUrl fetch url ids db = (st, ids', db', es) \<Longrightarrow>
     ids' = ids @ (case extractId url of None \<Rightarrow> [] | Some i \<Rightarrow> [i])"
  by (auto simp: syncUrl_def Let_def split: option.splits list.splits sum.splits if_splits)

lemma syncUrl_no_delete:
  "syncUrl fetch url ids db = (st, ids', db', es) \<Longrightarrow> ThreadDelete k \<notin> set es"
  by (auto simp: syncUrl_def Let_def split: option.splits list.splits sum.splits if_splits)

lemma syncUrls_ids:
  "syncUrls fetch urls ids db = (Completed, ids', db', es) \<Longrightarrow>
     ids' = ids @ List.map_filter extractId urls"
proof (induction urls arbitrary: ids db es)
  case Nil
  then show ?case by (simp add: List.map_filter_simps)
next
  case (Cons u us)
  from Cons.prems show ?case
  proof (cases rule: syncUrls_Cons_cases)
    case (stop e)
    then show ?thesis by simp
  next
    case (go ids1 db1 es1 es2)
    from Cons.IH [OF go(2)] syncUrl_ids [OF go(1)] show ?thesis
      by (simp add: List.map_filter_simps split: option.splits)
  qed
qed

lemma syncUrls_no_delete:
  "syncUrls fetch urls ids db = (st, ids', db', es) \<Longrightarrow> ThreadDelete k \<notin> set es"
proof (induction urls arbitrary: ids db es)
  case Nil
  then show ?case by simp
next
  case (Cons u us)
  from Cons.prems show ?case
  proof (cases rule: syncUrls_Cons_cases)
    case (stop e)
    then show ?thesis by (auto dest: syncUrl_no_delete)
  next
    case (go ids1 db1 es1 es2)
    from Cons.IH [OF go(2)] syncUrl_no_delete [OF go(1)] go(3) show ?thesis by simp
  qed
qed

lemma syncUrl_skip: "extractId url = None \<Longrightarrow> syncUrl fetch url ids db = (Completed, ids, db, [LogWarn url])"
  by (simp add: syncUrl_def)

lemma syncUrls_append:
  "syncUrls fetch (xs @ ys) ids db =
     (case syncUrls fetch xs ids db of
        (Threw e, ids1, db1, es1) \<Rightarrow> (Threw e, ids1, db1, es1)
      | (Completed, ids1, db1, es1) \<Rightarrow>
          (case syncUrls fetch ys ids1 db1 of (st, ids2, db2, es2) \<Rightarrow> (st, ids2, db2, es1 @ es2)))"
proof (induction xs arbitrary: ids db)
  case Nil
  then show ?case by (simp split: prod.splits)
next
  case (Cons x xs)
  show ?case
    by (simp add: Cons.IH split: prod.splits status.splits)
qed

lemma syncUrls_skip_middle:
  assumes "extractId url = None"
    and "syncUrls fetch (xs @ ys) ids db = (st, ids', db', es)"
  shows "\<exists>es'. syncUrls fetch (xs @ url # ys) ids db = (st, ids', db', es')
          \<and> filter (\<lambda>e. e \<noteq> LogWarn url) es' = filter (\<lambda>e. e \<noteq> LogWarn url) es"
proof -
  obtain st1 ids1 db1 es1 where x: "syncUrls fetch xs ids db = (st1, ids1, db1, es1)"
    by (cases "syncUrls fetch xs ids db") auto
  show ?thesis
  proof (cases st1)
    case (Threw e)
    with x assms(2) show ?thesis by (auto simp: syncUrls_append)
  next
    case Completed
    obtain st2 ids2 db2 es2 where y: "syncUrls fetch ys ids1 db1 = (st2, ids2, db2, es2)"
      by (cases "syncUrls fetch ys ids1 db1") auto
    from x y Completed assms(2) have "st = st2" "ids' = ids2" "db' = db2" "es = es1 @ es2"
      by (simp_all add: syncUrls_append)
    moreover have "syncUrls fetch (xs @ url # ys) ids db = (st2, ids2, db2, es1 @ LogWarn url # es2)"
      using x y Completed by (simp add: syncUrls_append syncUrl_skip [OF assms(1)])
    ultimately show ?thesis by simp
  qed
qed

lemma sync_skip_middle:
  assumes "extractId url = None"
    and "syncDatabaseWatchedThreads fetch (xs @ ys) db = (st, db', es)"
  shows "\<exists>es'. syncDatabaseWatchedThreads fetch (xs @ url # ys) db = (st, db', es')
          \<and> filter (\<lambda>e. e \<noteq> LogWarn url) es' = filter (\<lambda>e. e \<noteq> LogWarn url) es"
proof -
  obtain st1 ids1 db1 es1 where x: "syncUrls fetch (xs @ ys) [] db = (st1, ids1, db1, es1)"
    by (cases "syncUrls fetch (xs @ ys) [] db") auto
  from syncUrls_skip_middle [OF assms(1) x] obtain es1' where
    y: "syncUrls fetch (xs @ url # ys) [] db = (st1, ids1, db1, es1')"
    and f: "filter (\<lambda>e. e \<noteq> LogWarn url) es1' = filter (\<lambda>e. e \<noteq> LogWarn url) es1" by blast
  show ?thesis
  proof (cases st1)
    case (Threw e)
    with x y f assms(2) show ?thesis by (auto simp: syncDatabaseWatchedThreads_def)
  next
    case Completed
    with x y f assms(2) show ?thesis
      by (auto simp: syncDatabaseWatchedThreads_def split: prod.splits)
  qed
qed

subsection \<open>Identifier of a watched URL\<close>

lemma matchId_Some:
  "matchId url = Some m \<Longrightarrow>
     \<exists>pre ds rest. url = pre @ 46 # ds @ rest \<and> m = 46 # ds \<and> ds \<noteq> [] \<and> list_all isDigit ds
       \<and> (rest = [] \<or> \<not> isDigit (hd rest))
       \<and> (\<forall>p c s. pre = p @ 46 # c # s \<longrightarrow> \<not> isDigit c)"
proof (induction url)
  case Nil
  then show ?case by simp
next
  case (Cons a cs)
  show ?case
  proof (cases "a = 46 \<and> takeWhile isDigit cs \<noteq> []")
    case True
    let ?ds = "takeWhile isDigit cs" and ?rest = "dropWhile isDigit cs"
    have "a # cs = [] @ 46 # ?ds @ ?rest" using True by simp
    moreover have "m = 46 # ?ds" using True Cons.prems by simp
    moreover have "list_all isDigit ?ds" by (simp add: list_all_iff) (meson set_takeWhileD)
    moreover have "?rest = [] \<or> \<not> isDigit (hd ?rest)" using hd_dropWhile by blast
    ultimately show ?thesis using True by blast
  next
    case False
    with Cons.prems have "matchId cs = Some m" by auto
    from Cons.IH [OF this] obtain pre ds rest where
      u: "cs = pre @ 46 # ds @ rest" and m: "m = 46 # ds" and d: "ds \<noteq> []" "list_all isDigit ds"
      and r: "rest = [] \<or> \<not> isDigit (hd rest)"
      and l: "\<forall>p c s. pre = p @ 46 # c # s \<longrightarrow> \<not> isDigit c" by blast
    have "\<forall>p c s. a # pre = p @ 46 # c # s \<longrightarrow> \<not> isDigit c"
    proof (intro allI impI)
      fix p c s assume e: "a # pre = p @ 46 # c # s"
      show "\<not> isDigit c"
      proof (cases p)
        case Nil
        with e have "a = 46" and "pre = c # s" by simp_all
        with u False show ?thesis by auto
      next
        case (Cons b p')
        with e have "pre = p' @ 46 # c # s" by simp
        with l show ?thesis by blast
      qed
    qed
    moreover have "a # cs = (a # pre) @ 46 # ds @ rest" using u by simp
    ultimately show ?thesis using m d r by blast
  qed
qed

lemma matchId_None:
  "matchId url = None \<longleftrightarrow> (\<forall>p c s. url = p @ 46 # c # s \<longrightarrow> \<not> isDigit c)"
proof (induction url)
  case Nil
  then show ?case by simp
next
  case (Cons a cs)
  show ?case
  proof (cases "a = 46 \<and> takeWhile isDigit cs \<noteq> []")
    case True
    then obtain c s where "cs = c # s" "isDigit c" by (cases cs) (auto split: if_splits)
    with True have "a # cs = [] @ 46 # c # s \<and> isDigit c" by simp
    then have "\<not> (\<forall>p c s. a # cs = p @ 46 # c # s \<longrightarrow> \<not> isDigit c)" by blast
    with True show ?thesis by simp
  next
    case False
    have "(\<forall>p c s. a # cs = p @ 46 # c # s \<longrightarrow> \<not> isDigit c)
          \<longleftrightarrow> (\<forall>p c s. cs = p @ 46 # c # s \<longrightarrow> \<not> isDigit c)"
    proof
      assume h: "\<forall>p c s. a # cs = p @ 46 # c # s \<longrightarrow> \<not> isDigit c"
      show "\<forall>p c s. cs = p @ 46 # c # s \<longrightarrow> \<not> isDigit c"
      proof (intro allI impI)
        fix p c s assume "cs = p @ 46 # c # s"
        then have "a # cs = (a # p) @ 46 # c # s" by simp
        with h show "\<not> isDigit c" by blast
      qed
    next
      assume h: "\<forall>p c s. cs = p @ 46 # c # s \<longrightarrow> \<not> isDigit c"
      show "\<forall>p c s. a # cs = p @ 46 # c # s \<longrightarrow> \<not> isDigit c"
      proof (intro allI impI)
        fix p c s assume e: "a # cs = p @ 46 # c # s"
        show "\<not> isDigit c"
        proof (cases p)
          case Nil
          with e have "a = 46" "cs = c # s" by simp_all
          with False show ?thesis by auto
        next
          case (Cons b p')
          with e have "cs = p' @ 46 # c # s" by simp
          with h show ?thesis by blast
        qed
      qed
    qed
    with False Cons.IH show ?thesis by auto
  qed
qed

lemma parseInt_replaceDot:
  "list_all isDigit ds \<Longrightarrow> parseInt (replaceDot (46 # ds)) = roundToDouble (decimalValue ds)"
  by (simp add: parseInt_def replaceDot_def list_all_iff takeWhile_eq_all_conv [THEN iffD2])

lemma extractId_Some:
  assumes "extractId url = Some n"
  shows "\<exists>pre ds rest. url = pre @ 46 # ds @ rest \<and> ds \<noteq> [] \<and> list_all isDigit ds
       \<and> (rest = [] \<or> \<not> isDigit (hd rest))
       \<and> (\<forall>p c s. pre = p @ 46 # c # s \<longrightarrow> \<not> isDigit c)
       \<and> n = roundToDouble (decimalValue ds)"
proof -
  from assms obtain m where m: "matchId url = Some m" and n: "n = parseInt (replaceDot m)"
    by (auto simp: extractId_def split: option.splits)
  from matchId_Some [OF m] obtain pre ds rest where
    "url = pre @ 46 # ds @ rest" "m = 46 # ds" "ds \<noteq> []" "list_all isDigit ds"
    "rest = [] \<or> \<not> isDigit (hd rest)" "\<forall>p c s. pre = p @ 46 # c # s \<longrightarrow> \<not> isDigit c" by blast
  with n parseInt_replaceDot show ?thesis by blast
qed

text \<open>From \<open>2 ^ 53\<close> on the identifier is not always the value of the digits: the
  digits \<open>9007199254740993\<close> give the number 9007199254740992.\<close>

lemma extractId_rounds:
  "extractId (js ''https://f95zone.to/threads/game.9007199254740993/'') = Some 9007199254740992"
  by (simp add: sync_eval bitLength.simps)

lemma extractId_None:
  "extractId url = None \<longleftrightarrow> (\<forall>p c s. url = p @ 46 # c # s \<longrightarrow> \<not> isDigit c)"
  using matchId_None [of url] by (auto simp: extractId_def split: option.splits)

text \<open>
  C2, as the code has it. The identifier is the decimal value of the digits after the
  leftmost dot that a digit follows: the URL is \<open>pre\<close>, the dot, the digits \<open>ds\<close>
  and a rest that does not start with a digit, and no dot inside \<open>pre\<close> has a digit
  after it. A URL with no dot followed by a digit is skipped: the iteration logs a
  warning and leaves the recent identifiers and the store as they are, and a pass
  over a list with that URL in it ends with the status and the store of the pass over
  the list without it, the events differing in that warning only.
\<close>

theorem url_without_id_is_skipped:
  "(case extractId url of
      Some n \<Rightarrow>
        (\<exists>pre ds rest. url = pre @ 46 # ds @ rest \<and> ds \<noteq> [] \<and> list_all isDigit ds
           \<and> (rest = [] \<or> \<not> isDigit (hd rest))
           \<and> (\<forall>p c s. pre = p @ 46 # c # s \<longrightarrow> \<not> isDigit c)
           \<and> (decimalValue ds < 2 ^ 53 \<longrightarrow> n = decimalValue ds))
    | None \<Rightarrow>
        (\<forall>p c s. url = p @ 46 # c # s \<longrightarrow> \<not> isDigit c)
        \<and> syncUrl fetch url ids db = (Completed, ids, db, [LogWarn url])
        \<and> (\<forall>xs ys st db' es. syncDatabaseWatchedThreads fetch (xs @ ys) db = (st, db', es) \<longrightarrow>
             (\<exists>es'. syncDatabaseWatchedThreads fetch (xs @ url # ys) db = (st, db', es')
                \<and> filter (\<lambda>e. e \<noteq> LogWarn url) es' = filter (\<lambda>e. e \<noteq> LogWarn url) es)))"
proof (cases "extractId url")
  case None
  then show ?thesis
    using extractId_None [of url] syncUrl_skip [OF None] sync_skip_middle [OF None]
    by simp
next
  case (Some n)
  from extractId_Some [OF Some] obtain pre ds rest where
    "url = pre @ 46 # ds @ rest" "ds \<noteq> []" "list_all isDigit ds"
    "rest = [] \<or> \<not> isDigit (hd rest)" "\<forall>p c s. pre = p @ 46 # c # s \<longrightarrow> \<not> isDigit c"
    "n = roundToDouble (decimalValue ds)" by blast
  moreover from this have "decimalValue ds < 2 ^ 53 \<longrightarrow> n = decimalValue ds"
    by (simp add: roundToDouble_exact)
  ultimately have "\<exists>pre ds rest. url = pre @ 46 # ds @ rest \<and> ds \<noteq> [] \<and> list_all isDigit ds
           \<and> (rest = [] \<or> \<not> isDigit (hd rest))
           \<and> (\<forall>p c s. pre = p @ 46 # c # s \<longrightarrow> \<not> isDigit c)
           \<and> (decimalValue ds < 2 ^ 53 \<longrightarrow> n = decimalValue ds)" by blast
  with Some show ?thesis by simp
qed

lemma extractId_no_dot: "extractId (js ''https://f95zone.to/threads/123/'') = None"
  by (simp add: sync_eval)

theorem url_without_id_is_skipped_witness:
  "syncUrl catalog123 (js ''https://f95zone.to/threads/123/'') [] storeWith123 =
     (Completed, [], storeWith123, [LogWarn (js ''https://f95zone.to/threads/123/'')])
   \<and> (\<exists>es'. syncDatabaseWatchedThreads catalog123
               [js ''https://f95zone.to/threads/123/'', js ''https://f95zone.to/threads/game.123/'']
               storeWith123 = (Completed, storeWith123, es'))"
proof -
  have s: "syncDatabaseWatchedThreads catalog123 ([] @ [js ''https://f95zone.to/threads/game.123/''])
            storeWith123 = (Completed, storeWith123, [])"
    by (simp add: sync_eval catalog123_def storeWith123_def)
  from url_without_id_is_skipped [of "js ''https://f95zone.to/threads/123/''" catalog123 "[]" storeWith123]
  show ?thesis using s unfolding extractId_no_dot by (simp del: append_Nil) (metis append_Nil)
qed

text \<open>
  The identifier is not the trailing numeric segment of the URL. A URL whose last path
  segment is the number 123, with no dot before it, is skipped; and where a dot with
  digits stands before the last number of the URL, the digits taken are those after
  the first dot.
\<close>

theorem trailing_segment_counterexample:
  "extractId (js ''https://f95zone.to/threads/123/'') = None
   \<and> trailingNumericSegment (js ''https://f95zone.to/threads/123/'') = Some 123
   \<and> extractId (js ''https://f95zone.to/threads/game-v0.5.123/'') = Some 5
   \<and> trailingNumericSegment (js ''https://f95zone.to/threads/game-v0.5.123/'') = Some 123"
  by (simp add: extractId_def trailingNumericSegment_def replaceDot_def parseInt_def
      decimalValue_def roundToDouble_def isDigit_def js_def)

subsection \<open>Unsubscribed threads\<close>

text \<open>
  C3. In a pass that completes from a store with distinct internal identifiers, the
  recent identifiers are those extracted from the list, in order. The loop over the
  URLs deletes nothing; the deletions all come after its events, one for each row of
  the store it leaves whose identifier is not a recent one; and the final store is that
  store with exactly the rows of recent identifiers kept.
\<close>

theorem unsubscribe_after_loop:
  assumes "keysOk db" and "syncUrls fetch urlList [] db = (Completed, recentIDs, db1, es1)"
  shows "recentIDs = List.map_filter extractId urlList
         \<and> syncDatabaseWatchedThreads fetch urlList db =
             (Completed,
              \<lparr>rows = filter (\<lambda>(k, t). t_id t \<in> set recentIDs) (rows db1),
               nextId = nextId db1\<rparr>,
              es1 @ map ThreadDelete
                      (map fst (filter (\<lambda>(k, t). t_id t \<notin> set recentIDs) (rows db1))))
         \<and> (\<forall>k. ThreadDelete k \<notin> set es1)"
proof -
  have k1: "keysOk db1" using assms by (rule keysOk_syncUrls)
  have "recentIDs = List.map_filter extractId urlList"
    using syncUrls_ids [OF assms(2)] by simp
  moreover have "\<forall>k. ThreadDelete k \<notin> set es1"
    using syncUrls_no_delete [OF assms(2)] by simp
  ultimately show ?thesis
    using assms(2) removeUnsubscribed_rows [OF k1]
    by (simp add: syncDatabaseWatchedThreads_def)
qed

theorem unsubscribe_after_loop_witness:
  "syncDatabaseWatchedThreads catalog123 [js ''https://f95zone.to/threads/game.123/''] storeWith7 =
     (Completed,
      \<lparr>rows = [(1, \<lparr>t_id = 123, t_url = js ''https://f95zone.to/threads/game.123/'',
                      t_name = js ''Game'', updateAvailable = False, markedAsRead = False\<rparr>)],
       nextId = 2\<rparr>,
      [ThreadInsert \<lparr>t_id = 123, t_url = js ''https://f95zone.to/threads/game.123/'',
                      t_name = js ''Game'', updateAvailable = False, markedAsRead = False\<rparr>,
       ThreadDelete 0])"
proof -
  have k: "keysOk storeWith7" by (simp add: keysOk_def storeWith7_def)
  have l: "syncUrls catalog123 [js ''https://f95zone.to/threads/game.123/''] [] storeWith7 =
     (Completed, [123],
      \<lparr>rows = [(0, \<lparr>t_id = 7, t_url = js ''https://f95zone.to/threads/old.7/'',
                     t_name = js ''Old'', updateAvailable = False, markedAsRead = False\<rparr>),
               (1, \<lparr>t_id = 123, t_url = js ''https://f95zone.to/threads/game.123/'',
                      t_name = js ''Game'', updateAvailable = False, markedAsRead = False\<rparr>)],
       nextId = 2\<rparr>,
      [ThreadInsert \<lparr>t_id = 123, t_url = js ''https://f95zone.to/threads/game.123/'',
                      t_name = js ''Game'', updateAvailable = False, markedAsRead = False\<rparr>])"
    by (simp add: sync_eval catalog123_def storeWith7_def)
  from unsubscribe_after_loop [OF k l] show ?thesis by simp
qed

subsection \<open>A thread whose URL changed\<close>



subsection \<open>Threads to show to the user\<close>

lemma excludeInstalled_filter:
  "excludeInstalled games threads result =
     result @ filter (\<lambda>(k, t). t_id t \<notin> g_id ` set games) threads"
proof (induction threads arbitrary: result)
  case Nil
  then show ?case by simp
next
  case (Cons r threads)
  obtain k t where r: "r = (k, t)" by (cases r)
  have "GameDB_search_id (t_id t) games = [] \<longleftrightarrow> t_id t \<notin> g_id ` set games"
    by (force simp: GameDB_search_id_def filter_empty_conv)
  then show ?case using r by (simp add: Cons.IH Let_def)
qed

lemma getUpdatedThreads_eq:
  "getUpdatedThreads unicodeUpper db games =
     filter (\<lambda>(k, t). t_id t \<notin> g_id ` set games)
       (sort_key (\<lambda>(k, t). toUpperCase unicodeUpper (t_name t))
          (filter (\<lambda>(k, t). updateAvailable t \<and> \<not> markedAsRead t) (rows db)))"
  by (simp add: getUpdatedThreads_def excludeInstalled_filter ThreadDB_search_updated_def)

text \<open>
  C5. \<open>getUpdatedThreads\<close> returns exactly the stored rows with
  \<open>updateAvailable = true\<close> and \<open>markedAsRead = false\<close> whose identifier is that of
  no game of the library, each as often as it is stored; they come in ascending order
  of their case-folded names; and no returned thread has the identifier of a game of
  the library.
\<close>

theorem updated_threads_exclude_games:
  "mset (getUpdatedThreads unicodeUpper db games) =
     filter_mset (\<lambda>(k, t). updateAvailable t \<and> \<not> markedAsRead t \<and> t_id t \<notin> g_id ` set games)
       (mset (rows db))
   \<and> sorted (map (\<lambda>(k, t). toUpperCase unicodeUpper (t_name t)) (getUpdatedThreads unicodeUpper db games))
   \<and> (\<forall>(k, t) \<in> set (getUpdatedThreads unicodeUpper db games). \<forall>g \<in> set games. t_id t \<noteq> g_id g)"
proof (intro conjI)
  show "mset (getUpdatedThreads unicodeUpper db games) =
     filter_mset (\<lambda>(k, t). updateAvailable t \<and> \<not> markedAsRead t \<and> t_id t \<notin> g_id ` set games)
       (mset (rows db))"
    unfolding getUpdatedThreads_eq
    by (simp add: split_def conj_commute filter_filter_mset)
  show "sorted (map (\<lambda>(k, t). toUpperCase unicodeUpper (t_name t)) (getUpdatedThreads unicodeUpper db games))"
    unfolding getUpdatedThreads_eq by (rule sorted_filter) (rule sorted_sort_key)
  show "\<forall>(k, t) \<in> set (getUpdatedThreads unicodeUpper db games). \<forall>g \<in> set games. t_id t \<noteq> g_id g"
    unfolding getUpdatedThreads_eq by auto
qed

theorem updated_threads_exclude_games_witness:
  "mset (getUpdatedThreads keepUnits threeThreads [gameThree]) =
     {#(0, \<lparr>t_id = 1, t_url = js ''t.1'', t_name = js ''beta'',
             updateAvailable = True, markedAsRead = False\<rparr>),
       (1, \<lparr>t_id = 2, t_url = js ''t.2'', t_name = js ''Alpha'',
             updateAvailable = True, markedAsRead = False\<rparr>)#}
   \<and> sorted (map (\<lambda>(k, t). toUpperCase keepUnits (t_name t)) (getUpdatedThreads keepUnits threeThreads [gameThree]))
   \<and> list_all (\<lambda>(k, t). t_id t \<noteq> g_id gameThree) (getUpdatedThreads keepUnits threeThreads [gameThree])"
  using updated_threads_exclude_games [of keepUnits threeThreads "[gameThree]"]
  by (simp add: threeThreads_def gameThree_def list_all_iff split_def)

subsection \<open>Evaluation of the examples\<close>

lemmas string_eval = js_def toUpperCase_def upperUnit_def startsWith_def indexOf_def includesStr_def
  substr_def isWhiteSpace_def trim_def isDigit_def isLineTerminator_def isSpecial_def
  cleanGameName_def getGameVersionFromName_def getDirInfo_def keepUnits_def Let_def

lemmas ingest_eval = getGameFromPath_def GameDB_search_id_def GameDB_insert_def GIE_convert_def
  requireUserToSelectGameWithSameName_def candidate_def catalogX_def flakyCatalog_def
  choose77_def noRejection_def fullStore_def noTranslation_def gameA_def

subsection \<open>Normalized names\<close>

















lemma removeTags_id: "91 \<notin> set s \<Longrightarrow> removeTags s = s"
  by (induction s) auto

lemma trim_id:
  assumes "s = [] \<or> (\<not> isWhiteSpace (hd s) \<and> \<not> isWhiteSpace (last s))"
  shows "trim s = s"
proof (cases "s = []")
  case True
  then show ?thesis by (simp add: trim_def)
next
  case False
  with assms have h: "\<not> isWhiteSpace (hd s)" and l: "\<not> isWhiteSpace (last s)" by simp_all
  from False h have a: "dropWhile isWhiteSpace s = s" by (cases s) simp_all
  from False l have "\<not> isWhiteSpace (hd (rev s))" by (simp add: hd_rev)
  with False have "dropWhile isWhiteSpace (rev s) = rev s" by (cases "rev s") simp_all
  with a show ?thesis by (simp add: trim_def)
qed

lemma cleanGameName_id:
  assumes "91 \<notin> set name" and "\<forall>c \<in> set name. \<not> isSpecial c"
    and "name = [] \<or> (\<not> isWhiteSpace (hd name) \<and> \<not> isWhiteSpace (last name))"
  shows "cleanGameName name = name"
proof -
  from assms(2) have "filter (\<lambda>c. \<not> isSpecial c) name = name" by (simp add: filter_id_conv)
  with assms(1,3) show ?thesis by (simp add: cleanGameName_def removeTags_id trim_id)
qed






subsection \<open>Paths of games already in the library\<close>


lemma getGameFromPath_db:
  assumes "getGameFromPath unicodeUpper getDirName search chooseButton rejects path db = (st, db', es)"
  shows "db' = db \<or> (\<exists>r. db' = db @ [r] \<and> g_gameDirectory r = path)"
  using assms
  by (auto simp: getGameFromPath_def Let_def getDirInfo_def GameDB_insert_def
      split: sum.splits list.splits option.splits if_splits)






text \<open>A directory with a Cyrillic name in small letters is a duplicate of the game
  of the same name with a capital, once the case tables cover these letters.\<close>

lemma cyrillic_duplicate:
  "getUnlistedGamesInArrayOfPath upperCyrillic id [igra] [gameIgra] =
     ([], [Toast Warning (GameAlreadyListed igra)])"
  by (simp add: string_eval getUnlistedGamesInArrayOfPath_def gameIgra_def igra_def
      upperCyrillic_def MAX_NUMBER_OF_PRESENT_GAMES_FOR_MESSAGES_def)

subsection \<open>A batch of directories\<close>

lemma getGameFromPaths_append:
  "getGameFromPaths unicodeUpper getDirName search chooseButton rejects (ps @ qs) db =
     (case getGameFromPaths unicodeUpper getDirName search chooseButton rejects ps db of
        (db1, es1) \<Rightarrow>
          (case getGameFromPaths unicodeUpper getDirName search chooseButton rejects qs db1 of
             (db2, es2) \<Rightarrow> (db2, es1 @ es2)))"
proof (induction ps arbitrary: db)
  case Nil
  then show ?case by (simp split: prod.splits)
next
  case (Cons p ps)
  show ?case by (simp add: Cons.IH split: prod.splits status.splits)
qed

lemma getGameFromPath_thrown:
  assumes "getGameFromPath unicodeUpper getDirName search chooseButton rejects path db = (Threw e, db', es)"
  shows "es = [] \<and> (db' = db \<or> (\<exists>r. db' = db @ [r] \<and> g_gameDirectory r = path))"
proof -
  from assms have "es = []"
    by (auto simp: getGameFromPath_def Let_def
        split: sum.splits list.splits option.splits if_splits)
  with getGameFromPath_db [OF assms] show ?thesis by simp
qed

text \<open>The calls whose rejection makes \<open>getGameFromPath\<close> throw: the search of the
  remote catalog, and the message box that resolves with no result.\<close>

lemma getGameFromPath_search_rejected:
  assumes "search (di_name (getDirInfo unicodeUpper getDirName path))
             (di_mod (getDirInfo unicodeUpper getDirName path)) = Inl e"
  shows "getGameFromPath unicodeUpper getDirName search chooseButton rejects path db = (Threw e, db, [])"
  using assms by (simp add: getGameFromPath_def Let_def)

lemma getGameFromPath_no_result:
  assumes "search (di_name (getDirInfo unicodeUpper getDirName path))
             (di_mod (getDirInfo unicodeUpper getDirName path)) = Inr gamelist"
    and "length gamelist > 1"
    and "\<forall>call. rejects call = None"
    and "\<forall>message candidates. chooseButton message candidates = None"
  shows "getGameFromPath unicodeUpper getDirName search chooseButton rejects path db =
           (Threw (Error (js ''TypeError'')), db, [])"
proof -
  have "\<And>cs. firstRejection rejects cs = None"
  proof -
    fix cs show "firstRejection rejects cs = None" using assms(3) by (induction cs) simp_all
  qed
  with assms show ?thesis
    by (cases gamelist)
      (simp_all add: getGameFromPath_def Let_def requireUserToSelectGameWithSameName_def)
qed

text \<open>
  C8. \<open>getGameFromPaths\<close> returns for every list of paths. Whatever
  \<open>getGameFromPath\<close> throws for a path (the rejection of the search of the remote
  catalog, of a translation, of the message box, of the search of the library or of
  the insertion, or the message box resolving with no result) and wherever the path
  stands in the list: the paths before it have been processed, the error is shown in a
  message box and logged for that path, the path itself has shown no message and has
  left the library as it found it or with the one record of its directory, and the
  paths after it are processed from there as they would be on their own.
\<close>

theorem batch_survives_failing_path:
  assumes "getGameFromPaths unicodeUpper getDirName search chooseButton rejects before db = (db1, es1)"
    and "getGameFromPath unicodeUpper getDirName search chooseButton rejects path db1 = (Threw e, db2, es2)"
    and "getGameFromPaths unicodeUpper getDirName search chooseButton rejects after db2 = (db3, es3)"
  shows "getGameFromPaths unicodeUpper getDirName search chooseButton rejects (before @ path # after) db =
           (db3, es1 @ [MessageBoxError path e, LogError path e] @ es3)
         \<and> es2 = []
         \<and> (db2 = db1 \<or> (\<exists>r. db2 = db1 @ [r] \<and> g_gameDirectory r = path))"
proof -
  from getGameFromPath_thrown [OF assms(2)]
  have e: "es2 = []" and d: "db2 = db1 \<or> (\<exists>r. db2 = db1 @ [r] \<and> g_gameDirectory r = path)"
    by simp_all
  have "getGameFromPaths unicodeUpper getDirName search chooseButton rejects (path # after) db1 =
          (db3, [MessageBoxError path e, LogError path e] @ es3)"
    using assms(2,3) e by simp
  with assms(1) have "getGameFromPaths unicodeUpper getDirName search chooseButton rejects
                        (before @ path # after) db =
                      (db3, es1 @ [MessageBoxError path e, LogError path e] @ es3)"
    by (simp add: getGameFromPaths_append)
  with e d show ?thesis by simp
qed

theorem batch_survives_failing_path_witness:
  "getGameFromPaths keepUnits id flakyCatalog choose77 fullStore
     [js ''Broken'', js ''Full'', js ''Game X [v.1.0]''] [] =
     ([(GIE_convert (candidate 77))
         \<lparr>g_version := js ''1.0'', g_gameDirectory := js ''Game X [v.1.0]''\<rparr>],
      [MessageBoxError (js ''Broken'') (Error (js ''timeout'')),
       LogError (js ''Broken'') (Error (js ''timeout'')),
       MessageBoxError (js ''Full'') (Error (js ''disk full'')),
       LogError (js ''Full'') (Error (js ''disk full'')),
       Toast Info (GameSuccessfullyAdded (js ''Game X''))])
   \<and> getGameFromPath keepUnits id flakyCatalog choose77 fullStore (js ''Full'') [] =
       (Threw (Error (js ''disk full'')), [], [])"
proof -
  have b: "getGameFromPaths keepUnits id flakyCatalog choose77 fullStore [js ''Broken''] [] =
     ([], [MessageBoxError (js ''Broken'') (Error (js ''timeout'')),
           LogError (js ''Broken'') (Error (js ''timeout''))])"
    by (simp add: string_eval ingest_eval)
  have p: "getGameFromPath keepUnits id flakyCatalog choose77 fullStore (js ''Full'') [] =
       (Threw (Error (js ''disk full'')), [], [])"
    by (simp add: string_eval ingest_eval)
  have a: "getGameFromPaths keepUnits id flakyCatalog choose77 fullStore [js ''Game X [v.1.0]''] [] =
     ([(GIE_convert (candidate 77))
         \<lparr>g_version := js ''1.0'', g_gameDirectory := js ''Game X [v.1.0]''\<rparr>],
      [Toast Info (GameSuccessfullyAdded (js ''Game X''))])"
    by (simp add: string_eval ingest_eval)
  from batch_survives_failing_path [OF b p a] p
  show ?thesis by simp
qed

text \<open>A rejected translation of the last message is thrown after the insertion:
  the error is shown and logged, and the record stays in the library.\<close>

lemma rejected_after_insertion:
  "getGameFromPaths keepUnits id flakyCatalog choose77 noTranslation [js ''Game X [v.1.0]''] [] =
     ([(GIE_convert (candidate 77))
         \<lparr>g_version := js ''1.0'', g_gameDirectory := js ''Game X [v.1.0]''\<rparr>],
      [MessageBoxError (js ''Game X [v.1.0]'') (Error (js ''no translation'')),
       LogError (js ''Game X [v.1.0]'') (Error (js ''no translation''))])"
  by (simp add: string_eval ingest_eval)

subsection \<open>The record of an ingested directory\<close>

text \<open>
  C7, as the code has it. When the search returns one candidate, or several of which
  the user picks one, no game of the library has the identifier of the selected
  candidate, and neither the search of the library nor the insertion is rejected,
  \<open>getGameFromPath\<close> adds exactly one record at the end of the library: the
  metadata of the selected candidate, its mod flag included, with the version and the
  path of the directory. It then shows that the game was added; when the translation
  of that message is rejected it throws instead, the record being in the library.
\<close>

theorem path_ingestion_inserts_selected:
  assumes "search (di_name (getDirInfo unicodeUpper getDirName path))
             (di_mod (getDirInfo unicodeUpper getDirName path)) = Inr gamelist"
    and "gamelist = [selected]
         \<or> (length gamelist > 1
            \<and> requireUserToSelectGameWithSameName rejects chooseButton
                 (let d = getDirInfo unicodeUpper getDirName path;
                      baseMessage = di_name d @ js '' ('' @ di_version d @ js '')''
                  in if di_mod d then baseMessage @ js '' [MOD]'' else baseMessage)
                 gamelist = Inr (Some selected))"
    and "rejects (GameDBSearch (gi_id selected)) = None"
    and "GameDB_search_id (gi_id selected) db = []"
    and "rejects (GameDBInsert
           \<lparr>g_id = gi_id selected, g_name = gi_name selected, g_author = gi_author selected,
            g_version = getGameVersionFromName unicodeUpper (getDirName path),
            g_url = gi_url selected, g_isMod = gi_isMod selected, g_gameDirectory = path\<rparr>) = None"
  shows "getGameFromPath unicodeUpper getDirName search chooseButton rejects path db =
     (case rejects (Translate (GameSuccessfullyAdded (gi_name selected))) of
        None \<Rightarrow> Completed
      | Some e \<Rightarrow> Threw e,
      db @ [\<lparr>g_id = gi_id selected, g_name = gi_name selected, g_author = gi_author selected,
             g_version = getGameVersionFromName unicodeUpper (getDirName path),
             g_url = gi_url selected, g_isMod = gi_isMod selected, g_gameDirectory = path\<rparr>],
      case rejects (Translate (GameSuccessfullyAdded (gi_name selected))) of
        None \<Rightarrow> [Toast Info (GameSuccessfullyAdded (gi_name selected))]
      | Some e \<Rightarrow> [])"
proof (cases "length gamelist > 1")
  case False
  with assms(2) have g: "gamelist = [selected]" by simp
  show ?thesis
    using assms(1,3,4,5) unfolding g
    by (simp add: getGameFromPath_def Let_def GameDB_insert_def GIE_convert_def getDirInfo_def
        split: option.splits)
next
  case True
  with assms(2) have r: "requireUserToSelectGameWithSameName rejects chooseButton
                 (let d = getDirInfo unicodeUpper getDirName path;
                      baseMessage = di_name d @ js '' ('' @ di_version d @ js '')''
                  in if di_mod d then baseMessage @ js '' [MOD]'' else baseMessage)
                 gamelist = Inr (Some selected)"
    by auto
  from True obtain first others where g: "gamelist = first # others" and o: "others \<noteq> []"
    by (cases gamelist) auto
  show ?thesis
  proof (cases "di_mod (getDirInfo unicodeUpper getDirName path)")
    case True
    with r assms(1,3,4,5) g o show ?thesis
      by (simp add: getGameFromPath_def Let_def GameDB_insert_def GIE_convert_def getDirInfo_def
          split: option.splits)
  next
    case False
    with r assms(1,3,4,5) g o show ?thesis
      by (simp add: getGameFromPath_def Let_def GameDB_insert_def GIE_convert_def getDirInfo_def
          split: option.splits)
  qed
qed

theorem path_ingestion_inserts_selected_witness:
  "getGameFromPath keepUnits id catalogX choose77 noRejection (js ''Game X [v.1.0] [MOD]'') [gameA] =
     (Completed,
      [gameA,
       \<lparr>g_id = 77, g_name = js ''Game X'', g_author = js ''dev'', g_version = js ''1.0'',
        g_url = js ''t'', g_isMod = False, g_gameDirectory = js ''Game X [v.1.0] [MOD]''\<rparr>],
      [Toast Info (GameSuccessfullyAdded (js ''Game X''))])"
proof -
  have s: "catalogX (di_name (getDirInfo keepUnits id (js ''Game X [v.1.0] [MOD]'')))
             (di_mod (getDirInfo keepUnits id (js ''Game X [v.1.0] [MOD]'')))
           = Inr [candidate 76, candidate 77, candidate 78]"
    by (simp add: catalogX_def)
  have c: "[candidate 76, candidate 77, candidate 78] = [candidate 77]
         \<or> (length [candidate 76, candidate 77, candidate 78] > 1
            \<and> requireUserToSelectGameWithSameName noRejection choose77
                 (let d = getDirInfo keepUnits id (js ''Game X [v.1.0] [MOD]'');
                      baseMessage = di_name d @ js '' ('' @ di_version d @ js '')''
                  in if di_mod d then baseMessage @ js '' [MOD]'' else baseMessage)
                 [candidate 76, candidate 77, candidate 78] = Inr (Some (candidate 77)))"
    by (simp add: requireUserToSelectGameWithSameName_def choose77_def candidate_def
        noRejection_def)
  have d: "GameDB_search_id (gi_id (candidate 77)) [gameA] = []"
    by (simp add: GameDB_search_id_def candidate_def gameA_def)
  have v: "getGameVersionFromName keepUnits (id (js ''Game X [v.1.0] [MOD]'')) = js ''1.0''"
    by (simp add: string_eval)
  from path_ingestion_inserts_selected [of catalogX keepUnits id "js ''Game X [v.1.0] [MOD]''"
      "[candidate 76, candidate 77, candidate 78]" "candidate 77" noRejection choose77 "[gameA]",
      OF s c _ d]
  show ?thesis unfolding v by (simp add: candidate_def noRejection_def)
qed

text \<open>
  The mod flag of the record is not the one of the directory: the directory below is
  tagged \<open>[MOD]\<close>, the catalog answers with candidates that are no mods, and the
  record persisted has \<open>isMod = false\<close>.
\<close>

theorem record_mod_counterexample:
  "map g_isMod (fst (snd (getGameFromPath keepUnits id catalogX choose77 noRejection (js ''Game X [v.1.0] [MOD]'') [])))
     = [False]
   \<and> di_mod (getDirInfo keepUnits id (js ''Game X [v.1.0] [MOD]'')) = True"
  by (simp add: string_eval ingest_eval)

subsection \<open>Running a pass twice\<close>

text \<open>With one record per identifier and one row per internal identifier, the
  search for an identifier finds its only record and a write changes that record
  only.\<close>

lemma filter_unique_key:
  assumes "distinct (map f xs)" and "x \<in> set xs"
  shows "filter (\<lambda>y. f y = f x) xs = [x]"
  using assms
proof (induction xs)
  case Nil
  then show ?case by simp
next
  case (Cons a xs)
  show ?case
  proof (cases "a = x")
    case True
    with Cons.prems(1) have "f x \<notin> f ` set xs" by simp
    then have "\<forall>y \<in> set xs. f y \<noteq> f x" by (metis imageI)
    then have "filter (\<lambda>y. f y = f x) xs = []" by (simp add: filter_empty_conv)
    with True show ?thesis by simp
  next
    case False
    with Cons.prems have "x \<in> set xs" "f a \<noteq> f x" "distinct (map f xs)" by auto
    with Cons.IH show ?thesis by simp
  qed
qed

lemma search_unique:
  assumes "idsUnique db" and "(k, t) \<in> set (rows db)"
  shows "ThreadDB_search_id (t_id t) db = [(k, t)]"
  using filter_unique_key [of "\<lambda>(k, t). t_id t" "rows db" "(k, t)"] assms
  by (simp add: idsUnique_def ThreadDB_search_id_def split_def)

lemma write_as_map:
  assumes "keysOk db" and "idsUnique db" and "(k, t) \<in> set (rows db)"
  shows "map (\<lambda>(k', t'). if k' = k then (k, new) else (k', t')) (rows db)
         = map (\<lambda>(k', t'). (k', if t_id t' = t_id t then new else t')) (rows db)"
proof (rule map_cong [OF refl])
  fix x assume x: "x \<in> set (rows db)"
  obtain k' t' where e: "x = (k', t')" by (cases x)
  have dk: "distinct (map fst (rows db))" using assms(1) by (simp add: keysOk_def)
  have "k' = k \<longleftrightarrow> t_id t' = t_id t"
  proof
    assume "k' = k"
    with dk x e assms(3) have "t' = t" by (metis eq_key_imp_eq_value)
    then show "t_id t' = t_id t" by simp
  next
    assume i: "t_id t' = t_id t"
    from search_unique [OF assms(2,3)] have "ThreadDB_search_id (t_id t) db = [(k, t)]" .
    moreover from x e i have "(k', t') \<in> set (ThreadDB_search_id (t_id t) db)"
      by (simp add: ThreadDB_search_id_def)
    ultimately show "k' = k" by simp
  qed
  then show "(case x of (k', t') \<Rightarrow> if k' = k then (k, new) else (k', t'))
             = (case x of (k', t') \<Rightarrow> (k', if t_id t' = t_id t then new else t'))"
    using e by auto
qed

lemma syncUrl_absent:
  assumes "extractId url = Some i" and "i \<notin> storedIds db" and "fetch url = Inr g"
  shows "syncUrl fetch url ids db =
           (Completed, ids @ [i], ThreadDB_insert (TI_convert g) db, [ThreadInsert (TI_convert g)])"
proof -
  have "ThreadDB_search_id i db = []"
    using assms(2) by (force simp: ThreadDB_search_id_def storedIds_def filter_empty_conv)
  with assms show ?thesis by (simp add: syncUrl_def Let_def)
qed

lemma syncUrl_present:
  assumes "keysOk db" and "idsUnique db" and "extractId url = Some i" and "i \<in> storedIds db"
    and "faithfulOn fetch url"
  shows "\<exists>es. syncUrl fetch url ids db =
           (Completed, ids @ [i],
            \<lparr>rows = map (\<lambda>(k, t). (k, stepRow fetch url t)) (rows db), nextId = nextId db\<rparr>, es)
         \<and> (\<forall>e \<in> set es. \<exists>k t. e = ThreadWrite k t)"
proof -
  from assms(4) obtain k t where m: "(k, t) \<in> set (rows db)" and i: "t_id t = i"
    by (auto simp: storedIds_def)
  from search_unique [OF assms(2) m] i have s: "ThreadDB_search_id i db = [(k, t)]" by simp
  from assms(3,5) obtain g where g: "fetch url = Inr g" "gi_id g = i" "gi_url g = url"
    by (auto simp: faithfulOn_def split: sum.splits)
  show ?thesis
  proof (cases "t_url t = url")
    case True
    have "map (\<lambda>(k, t). (k, stepRow fetch url t)) (rows db) = rows db"
    proof (rule map_idI)
      fix x assume x: "x \<in> set (rows db)"
      obtain k' t' where e: "x = (k', t')" by (cases x)
      have "stepRow fetch url t' = t'"
      proof (cases "t_id t' = i")
        case True
        with x e have "(k', t') \<in> set (ThreadDB_search_id i db)" by (simp add: ThreadDB_search_id_def)
        with s have "t' = t" by simp
        with \<open>t_url t = url\<close> show ?thesis by (simp add: stepRow_def)
      next
        case False
        with assms(3) show ?thesis by (simp add: stepRow_def)
      qed
      with e show "(case x of (k, t) \<Rightarrow> (k, stepRow fetch url t)) = x" by simp
    qed
    then have "\<lparr>rows = map (\<lambda>(k, t). (k, stepRow fetch url t)) (rows db), nextId = nextId db\<rparr> = db"
      by simp
    with True s assms(3) show ?thesis by (simp add: syncUrl_def)
  next
    case False
    let ?new = "(TI_convert g)\<lparr>updateAvailable := True, markedAsRead := False\<rparr>"
    have "map (\<lambda>(k', t'). if k' = k then (k, ?new) else (k', t')) (rows db)
          = map (\<lambda>(k', t'). (k', if t_id t' = t_id t then ?new else t')) (rows db)"
      using assms(1,2) m by (rule write_as_map)
    also have "\<dots> = map (\<lambda>(k, t). (k, stepRow fetch url t)) (rows db)"
    proof (rule map_cong [OF refl])
      fix x assume x: "x \<in> set (rows db)"
      obtain k' t' where e: "x = (k', t')" by (cases x)
      have "(if t_id t' = t_id t then ?new else t') = stepRow fetch url t'"
      proof (cases "t_id t' = i")
        case True
        with x e have "(k', t') \<in> set (ThreadDB_search_id i db)" by (simp add: ThreadDB_search_id_def)
        with s have "t' = t" by simp
        with False i g assms(3) show ?thesis by (simp add: stepRow_def)
      next
        case False
        with assms(3) i show ?thesis by (simp add: stepRow_def)
      qed
      with e show "(case x of (k', t') \<Rightarrow> (k', if t_id t' = t_id t then ?new else t'))
                   = (case x of (k, t) \<Rightarrow> (k, stepRow fetch url t))" by simp
    qed
    finally have w: "map (\<lambda>(k', t'). if k' = k then (k, ?new) else (k', t')) (rows db)
          = map (\<lambda>(k, t). (k, stepRow fetch url t)) (rows db)" .
    show ?thesis using False s g assms(3)
      by (simp add: syncUrl_def ThreadDB_write_def Let_def w)
  qed
qed

lemma stepRow_id [simp]: "faithfulOn fetch u \<Longrightarrow> t_id (stepRow fetch u t) = t_id t"
  by (auto simp: stepRow_def faithfulOn_def TI_convert_def split: sum.splits option.splits)

lemma stepRow_other: "extractId u \<noteq> Some (t_id t) \<Longrightarrow> stepRow fetch u t = t"
  by (simp add: stepRow_def)

lemma stepRow_same_url: "t_url t = u \<Longrightarrow> stepRow fetch u t = t"
  by (simp add: stepRow_def)

lemma replay_Nil [simp]: "replay fetch [] t = t"
  by (simp add: replay_def)

lemma replay_Cons [simp]: "replay fetch (u # us) t = replay fetch us (stepRow fetch u t)"
  by (simp add: replay_def)

lemma replay_snoc [simp]: "replay fetch (us @ [u]) t = stepRow fetch u (replay fetch us t)"
  by (simp add: replay_def)

lemma replay_other:
  "\<forall>u \<in> set us. extractId u \<noteq> Some (t_id t) \<Longrightarrow> replay fetch us t = t"
  by (induction us arbitrary: t) (simp_all add: stepRow_other)

lemma faithful_Cons [simp]: "faithful fetch (u # us) \<longleftrightarrow> faithfulOn fetch u \<and> faithful fetch us"
  by (simp add: faithful_def)

lemma faithful_Nil [simp]: "faithful fetch []"
  by (simp add: faithful_def)

lemma faithful_append [simp]:
  "faithful fetch (us @ vs) \<longleftrightarrow> faithful fetch us \<and> faithful fetch vs"
  by (simp add: faithful_def)

lemma stepRow_rewritten:
  assumes "extractId u = Some i" and "fetch u = Inr gu" and "gi_id gu = i" and "gi_url gu = u"
    and "fetch v = Inr gv" and "gi_id gv = i" and "gi_url gv = v"
  shows "stepRow fetch u ((TI_convert gv)\<lparr>updateAvailable := True, markedAsRead := False\<rparr>)
         = (TI_convert gu)\<lparr>updateAvailable := True, markedAsRead := False\<rparr>"
proof (cases "v = u")
  case True
  with assms have "gv = gu" by simp
  with True assms show ?thesis by (simp add: stepRow_def TI_convert_def)
next
  case False
  with assms show ?thesis by (simp add: stepRow_def TI_convert_def)
qed

lemma replay_rewritten:
  assumes "faithful fetch us" and "fetch v = Inr gv" and "gi_id gv = i" and "gi_url gv = v"
  shows "\<exists>w gw. fetch w = Inr gw \<and> gi_id gw = i \<and> gi_url gw = w
           \<and> replay fetch us ((TI_convert gv)\<lparr>updateAvailable := True, markedAsRead := False\<rparr>)
               = (TI_convert gw)\<lparr>updateAvailable := True, markedAsRead := False\<rparr>"
  using assms
proof (induction us arbitrary: v gv)
  case Nil
  then show ?case by auto
next
  case (Cons u us)
  let ?t = "(TI_convert gv)\<lparr>updateAvailable := True, markedAsRead := False\<rparr>"
  have ti: "t_id ?t = i" using Cons.prems(3) by (simp add: TI_convert_def)
  show ?case
  proof (cases "extractId u = Some i")
    case False
    with ti have "stepRow fetch u ?t = ?t" by (simp add: stepRow_other)
    with Cons.IH [of v gv] Cons.prems show ?thesis by simp
  next
    case True
    with Cons.prems(1) obtain gu where gu: "fetch u = Inr gu" "gi_id gu = i" "gi_url gu = u"
      by (auto simp: faithfulOn_def split: sum.splits)
    from stepRow_rewritten [OF True gu Cons.prems(2,3,4)]
    have "stepRow fetch u ?t = (TI_convert gu)\<lparr>updateAvailable := True, markedAsRead := False\<rparr>" .
    with Cons.IH [of u gu] Cons.prems(1) gu show ?thesis by simp
  qed
qed

lemma mapped_rows_inv:
  assumes "keysOk db" and "idsUnique db" and "faithfulOn fetch u"
  shows "keysOk \<lparr>rows = map (\<lambda>(k, t). (k, stepRow fetch u t)) (rows db), nextId = nextId db\<rparr>"
    and "idsUnique \<lparr>rows = map (\<lambda>(k, t). (k, stepRow fetch u t)) (rows db), nextId = nextId db\<rparr>"
    and "storedIds \<lparr>rows = map (\<lambda>(k, t). (k, stepRow fetch u t)) (rows db), nextId = nextId db\<rparr>
         = storedIds db"
proof -
  have k: "map fst (map (\<lambda>(k, t). (k, stepRow fetch u t)) (rows db)) = map fst (rows db)"
    by (simp add: split_def)
  have i: "map (\<lambda>(k, t). t_id t) (map (\<lambda>(k, t). (k, stepRow fetch u t)) (rows db))
           = map (\<lambda>(k, t). t_id t) (rows db)"
    using assms(3) by (simp add: split_def)
  show "keysOk \<lparr>rows = map (\<lambda>(k, t). (k, stepRow fetch u t)) (rows db), nextId = nextId db\<rparr>"
    using assms(1) unfolding keysOk_def by (simp add: k del: map_map)
  show "idsUnique \<lparr>rows = map (\<lambda>(k, t). (k, stepRow fetch u t)) (rows db), nextId = nextId db\<rparr>"
    using assms(2) unfolding idsUnique_def by (simp add: i del: map_map)
  show "storedIds \<lparr>rows = map (\<lambda>(k, t). (k, stepRow fetch u t)) (rows db), nextId = nextId db\<rparr>
         = storedIds db"
    unfolding storedIds_def by (simp add: i del: map_map)
qed

lemma insert_inv:
  assumes "idsUnique db" and "t_id t \<notin> storedIds db"
  shows "idsUnique (ThreadDB_insert t db)"
    and "storedIds (ThreadDB_insert t db) = insert (t_id t) (storedIds db)"
  using assms by (auto simp: idsUnique_def storedIds_def ThreadDB_insert_def)

lemma map_filter_snoc:
  "List.map_filter f (xs @ [x]) = List.map_filter f xs @ (case f x of None \<Rightarrow> [] | Some y \<Rightarrow> [y])"
  by (simp add: List.map_filter_def split: option.splits)

lemma map_filter_Cons:
  "List.map_filter f (x # xs) = (case f x of None \<Rightarrow> [] | Some y \<Rightarrow> [y]) @ List.map_filter f xs"
  by (simp add: List.map_filter_def split: option.splits)

lemma set_map_filter: "set (List.map_filter f xs) = {y. \<exists>x \<in> set xs. f x = Some y}"
  by (auto simp: List.map_filter_def) force

lemma storedIds_row: "r \<in> set (rows db) \<Longrightarrow> t_id (snd r) \<in> storedIds db"
  unfolding storedIds_def by (simp add: split_def image_iff) blast

text \<open>One iteration of the first pass keeps the invariant of the loop.\<close>

lemma syncUrl_settles:
  assumes k: "keysOk db" and i: "idsUnique db" and fu: "faithfulOn fetch u"
    and fp: "faithful fetch P"
    and sub: "set (List.map_filter extractId P) \<subseteq> storedIds db"
    and st: "\<forall>r \<in> set (rows db). replay fetch P (snd r) = snd r"
  shows "\<exists>db' es. syncUrl fetch u ids db =
             (Completed, ids @ (case extractId u of None \<Rightarrow> [] | Some j \<Rightarrow> [j]), db', es)
           \<and> keysOk db' \<and> idsUnique db'
           \<and> set (List.map_filter extractId (P @ [u])) \<subseteq> storedIds db'
           \<and> (\<forall>r \<in> set (rows db'). replay fetch (P @ [u]) (snd r) = snd r)"
proof (cases "extractId u")
  case None
  then have "\<forall>r \<in> set (rows db). stepRow fetch u (snd r) = snd r" by (simp add: stepRow_other)
  with None k i sub st show ?thesis
    by (simp add: syncUrl_skip map_filter_snoc)
next
  case (Some j)
  from fu Some obtain g where g: "fetch u = Inr g" "gi_id g = j" "gi_url g = u"
    by (auto simp: faithfulOn_def split: sum.splits)
  show ?thesis
  proof (cases "j \<in> storedIds db")
    case True
    let ?db' = "\<lparr>rows = map (\<lambda>(k, t). (k, stepRow fetch u t)) (rows db), nextId = nextId db\<rparr>"
    from syncUrl_present [OF k i Some True fu] obtain es where
      s: "syncUrl fetch u ids db = (Completed, ids @ [j], ?db', es)" by blast
    have "\<forall>r \<in> set (rows ?db'). replay fetch (P @ [u]) (snd r) = snd r"
    proof
      fix r assume "r \<in> set (rows ?db')"
      then obtain k0 t where m: "(k0, t) \<in> set (rows db)" and r: "r = (k0, stepRow fetch u t)"
        by auto
      from st m have rt: "replay fetch P t = t" by force
      have "stepRow fetch u (replay fetch P (stepRow fetch u t)) = stepRow fetch u t"
      proof (cases "extractId u = Some (t_id t) \<and> t_url t \<noteq> u")
        case False
        then have "stepRow fetch u t = t" by (auto simp: stepRow_def)
        with rt show ?thesis by simp
      next
        case True
        with Some have tj: "t_id t = j" by simp
        let ?n = "(TI_convert g)\<lparr>updateAvailable := True, markedAsRead := False\<rparr>"
        from True g have n: "stepRow fetch u t = ?n" by (simp add: stepRow_def)
        from replay_rewritten [OF fp g] obtain w gw where
          w: "fetch w = Inr gw" "gi_id gw = j" "gi_url gw = w"
          "replay fetch P ?n = (TI_convert gw)\<lparr>updateAvailable := True, markedAsRead := False\<rparr>"
          by blast
        from stepRow_rewritten [OF Some g w(1,2,3)] w(4) n show ?thesis by simp
      qed
      with r show "replay fetch (P @ [u]) (snd r) = snd r" by simp
    qed
    moreover have "set (List.map_filter extractId (P @ [u])) \<subseteq> storedIds ?db'"
      using sub True Some by (simp add: mapped_rows_inv(3) [OF k i fu] map_filter_snoc)
    ultimately show ?thesis
      using s Some mapped_rows_inv(1,2) [OF k i fu] by simp
  next
    case False
    let ?c = "TI_convert g"
    have cj: "t_id ?c = j" and cu: "t_url ?c = u" using g by (simp_all add: TI_convert_def)
    from syncUrl_absent [where fetch = fetch and url = u, OF Some False g(1)]
    have s: "syncUrl fetch u ids db = (Completed, ids @ [j], ThreadDB_insert ?c db, [ThreadInsert ?c])" .
    have old: "\<forall>r \<in> set (rows db). replay fetch (P @ [u]) (snd r) = snd r"
    proof
      fix r assume m: "r \<in> set (rows db)"
      then have "t_id (snd r) \<in> storedIds db" by (rule storedIds_row)
      with False have "t_id (snd r) \<noteq> j" by auto
      with Some have "stepRow fetch u (snd r) = snd r" by (simp add: stepRow_other)
      with st m show "replay fetch (P @ [u]) (snd r) = snd r" by simp
    qed
    have "\<forall>v \<in> set P. extractId v \<noteq> Some j"
    proof
      fix v assume "v \<in> set P"
      show "extractId v \<noteq> Some j"
      proof
        assume "extractId v = Some j"
        with \<open>v \<in> set P\<close> have "j \<in> set (List.map_filter extractId P)"
          by (auto simp: set_map_filter)
        with sub False show False by auto
      qed
    qed
    then have "replay fetch P ?c = ?c" using cj by (simp add: replay_other)
    then have new: "replay fetch (P @ [u]) ?c = ?c" using cu by (simp add: stepRow_same_url)
    have "\<forall>r \<in> set (rows (ThreadDB_insert ?c db)). replay fetch (P @ [u]) (snd r) = snd r"
      using old new by (simp add: ThreadDB_insert_def)
    moreover have "set (List.map_filter extractId (P @ [u])) \<subseteq> storedIds (ThreadDB_insert ?c db)"
      using sub Some False cj insert_inv(2) [of db ?c, OF i] by (auto simp: map_filter_snoc)
    moreover have "idsUnique (ThreadDB_insert ?c db)"
      using insert_inv(1) [of db ?c, OF i] False cj by simp
    ultimately show ?thesis using s Some keysOk_insert [OF k] by simp
  qed
qed

lemma syncUrls_settles:
  assumes "keysOk db" and "idsUnique db" and "faithful fetch S" and "faithful fetch P"
    and "set (List.map_filter extractId P) \<subseteq> storedIds db"
    and "\<forall>r \<in> set (rows db). replay fetch P (snd r) = snd r"
  shows "\<exists>db' es. syncUrls fetch S ids db =
             (Completed, ids @ List.map_filter extractId S, db', es)
           \<and> keysOk db' \<and> idsUnique db'
           \<and> set (List.map_filter extractId (P @ S)) \<subseteq> storedIds db'
           \<and> (\<forall>r \<in> set (rows db'). replay fetch (P @ S) (snd r) = snd r)"
  using assms
proof (induction S arbitrary: P db ids)
  case Nil
  then show ?case by (simp add: List.map_filter_simps)
next
  case (Cons u S)
  from Cons.prems(3) have fu: "faithfulOn fetch u" and fs: "faithful fetch S" by simp_all
  from syncUrl_settles [OF Cons.prems(1,2) fu Cons.prems(4,5,6), of ids]
  obtain db1 es1 where
    s: "syncUrl fetch u ids db =
          (Completed, ids @ (case extractId u of None \<Rightarrow> [] | Some j \<Rightarrow> [j]), db1, es1)"
    and k1: "keysOk db1" and i1: "idsUnique db1"
    and sub1: "set (List.map_filter extractId (P @ [u])) \<subseteq> storedIds db1"
    and st1: "\<forall>r \<in> set (rows db1). replay fetch (P @ [u]) (snd r) = snd r"
    by blast
  have fp1: "faithful fetch (P @ [u])" using Cons.prems(4) fu by simp
  from Cons.IH [OF k1 i1 fs fp1 sub1 st1,
      of "ids @ (case extractId u of None \<Rightarrow> [] | Some j \<Rightarrow> [j])"]
  obtain db2 es2 where
    r: "syncUrls fetch S (ids @ (case extractId u of None \<Rightarrow> [] | Some j \<Rightarrow> [j])) db1 =
          (Completed, (ids @ (case extractId u of None \<Rightarrow> [] | Some j \<Rightarrow> [j]))
                        @ List.map_filter extractId S, db2, es2)"
    and k2: "keysOk db2" and i2: "idsUnique db2"
    and sub2: "set (List.map_filter extractId ((P @ [u]) @ S)) \<subseteq> storedIds db2"
    and st2: "\<forall>r \<in> set (rows db2). replay fetch ((P @ [u]) @ S) (snd r) = snd r"
    by blast
  have "syncUrls fetch (u # S) ids db =
          (Completed, ids @ List.map_filter extractId (u # S), db2, es1 @ es2)"
    using s r by (simp add: map_filter_Cons split: option.splits)
  with k2 i2 sub2 st2 show ?case by simp
qed

lemma syncUrls_replays:
  assumes "keysOk db" and "idsUnique db" and "faithful fetch S"
    and "set (List.map_filter extractId S) \<subseteq> storedIds db"
  shows "\<exists>es. syncUrls fetch S ids db =
           (Completed, ids @ List.map_filter extractId S,
            \<lparr>rows = map (\<lambda>(k, t). (k, replay fetch S t)) (rows db), nextId = nextId db\<rparr>, es)
         \<and> (\<forall>e \<in> set es. (\<exists>k t. e = ThreadWrite k t) \<or> (\<exists>w. e = LogWarn w))"
  using assms
proof (induction S arbitrary: db ids)
  case Nil
  then show ?case by (simp add: List.map_filter_simps split_def)
next
  case (Cons u S)
  from Cons.prems(3) have fu: "faithfulOn fetch u" and fs: "faithful fetch S" by simp_all
  let ?db1 = "\<lparr>rows = map (\<lambda>(k, t). (k, stepRow fetch u t)) (rows db), nextId = nextId db\<rparr>"
  let ?ids1 = "ids @ (case extractId u of None \<Rightarrow> [] | Some j \<Rightarrow> [j])"
  have "\<exists>es1. syncUrl fetch u ids db = (Completed, ?ids1, ?db1, es1)
          \<and> (\<forall>e \<in> set es1. (\<exists>k t. e = ThreadWrite k t) \<or> (\<exists>w. e = LogWarn w))"
  proof (cases "extractId u")
    case None
    then have "map (\<lambda>(k, t). (k, stepRow fetch u t)) (rows db) = rows db"
      by (intro map_idI) (auto simp: stepRow_other)
    then have "?db1 = db" by simp
    with None show ?thesis by (simp add: syncUrl_skip)
  next
    case (Some j)
    with Cons.prems(4) have "j \<in> storedIds db" by (auto simp: map_filter_Cons)
    from syncUrl_present [OF Cons.prems(1,2) Some this fu, of ids] Some show ?thesis by auto
  qed
  then obtain es1 where s: "syncUrl fetch u ids db = (Completed, ?ids1, ?db1, es1)"
    and e1: "\<forall>e \<in> set es1. (\<exists>k t. e = ThreadWrite k t) \<or> (\<exists>w. e = LogWarn w)" by blast
  have sub1: "set (List.map_filter extractId S) \<subseteq> storedIds ?db1"
    using Cons.prems(4) mapped_rows_inv(3) [OF Cons.prems(1,2) fu]
    by (auto simp: map_filter_Cons split: option.splits)
  from Cons.IH [OF mapped_rows_inv(1,2) [OF Cons.prems(1,2) fu] fs sub1, of ?ids1]
  obtain es2 where
    r: "syncUrls fetch S ?ids1 ?db1 =
          (Completed, ?ids1 @ List.map_filter extractId S,
           \<lparr>rows = map (\<lambda>(k, t). (k, replay fetch S t)) (rows ?db1), nextId = nextId ?db1\<rparr>, es2)"
    and e2: "\<forall>e \<in> set es2. (\<exists>k t. e = ThreadWrite k t) \<or> (\<exists>w. e = LogWarn w)" by blast
  have "syncUrls fetch (u # S) ids db =
          (Completed, ids @ List.map_filter extractId (u # S),
           \<lparr>rows = map (\<lambda>(k, t). (k, replay fetch (u # S) t)) (rows db), nextId = nextId db\<rparr>,
           es1 @ es2)"
    using s r by (simp add: map_filter_Cons split_def split: option.splits)
  with e1 e2 show ?case by auto
qed

text \<open>When every URL with an identifier finds its record with that very URL, the
  loop changes nothing and logs the warnings only.\<close>

lemma syncUrls_steady:
  assumes "\<forall>u \<in> set S. \<forall>i. extractId u = Some i \<longrightarrow>
             (\<exists>k t others. ThreadDB_search_id i db = (k, t) # others \<and> t_url t = u)"
  shows "syncUrls fetch S ids db =
           (Completed, ids @ List.map_filter extractId S, db,
            map LogWarn (filter (\<lambda>u. extractId u = None) S))"
  using assms
proof (induction S arbitrary: ids)
  case Nil
  then show ?case by (simp add: List.map_filter_simps)
next
  case (Cons u S)
  show ?case
  proof (cases "extractId u")
    case None
    with Cons show ?thesis by (simp add: syncUrl_skip map_filter_Cons)
  next
    case (Some i)
    with Cons.prems obtain k t others where
      "ThreadDB_search_id i db = (k, t) # others" "t_url t = u" by auto
    with Some have "syncUrl fetch u ids db = (Completed, ids @ [i], db, [])"
      by (simp add: syncUrl_def)
    with Cons Some show ?thesis by (simp add: map_filter_Cons)
  qed
qed

lemma stepRow_idem:
  assumes "faithfulOn fetch u"
  shows "stepRow fetch u (stepRow fetch u t) = stepRow fetch u t"
proof (cases "extractId u = Some (t_id t) \<and> t_url t \<noteq> u")
  case False
  then have "stepRow fetch u t = t" by (auto simp: stepRow_def)
  then show ?thesis by simp
next
  case True
  with assms obtain g where g: "fetch u = Inr g" "gi_url g = u"
    by (auto simp: faithfulOn_def split: sum.splits)
  let ?n = "(TI_convert g)\<lparr>updateAvailable := True, markedAsRead := False\<rparr>"
  from True g have n: "stepRow fetch u t = ?n" by (simp add: stepRow_def)
  have "t_url ?n = u" using g by (simp add: TI_convert_def)
  then have "stepRow fetch u ?n = ?n" by (rule stepRow_same_url)
  with n show ?thesis by simp
qed

lemma stepRow_fixed_url:
  assumes "faithfulOn fetch u" and "extractId u = Some (t_id t)" and "stepRow fetch u t = t"
  shows "t_url t = u"
proof (rule ccontr)
  assume n: "t_url t \<noteq> u"
  from assms(1,2) obtain g where g: "fetch u = Inr g" "gi_url g = u"
    by (auto simp: faithfulOn_def split: sum.splits)
  let ?n = "(TI_convert g)\<lparr>updateAvailable := True, markedAsRead := False\<rparr>"
  from n assms(2) g have "stepRow fetch u t = ?n" by (simp add: stepRow_def)
  with assms(3) have "t = ?n" by simp
  then have "t_url t = t_url ?n" by (rule arg_cong)
  with g n show False by (simp add: TI_convert_def)
qed

lemma replay_single_url:
  assumes "\<forall>v \<in> set S. extractId v = Some (t_id t) \<longrightarrow> v = u"
    and "extractId u = Some (t_id t)" and "faithfulOn fetch u"
  shows "replay fetch S t = (if u \<in> set S then stepRow fetch u t else t)"
  using assms(1,2)
proof (induction S arbitrary: t)
  case Nil
  then show ?case by simp
next
  case (Cons v S)
  have rest: "\<forall>w \<in> set S. extractId w = Some (t_id t) \<longrightarrow> w = u"
    using Cons.prems(1) by simp
  show ?case
  proof (cases "extractId v = Some (t_id t)")
    case True
    with Cons.prems(1) have vu: "v = u" by simp
    let ?t = "stepRow fetch u t"
    have ti: "t_id ?t = t_id t" using assms(3) by (rule stepRow_id)
    have 1: "\<forall>w \<in> set S. extractId w = Some (t_id ?t) \<longrightarrow> w = u"
      unfolding ti by (rule rest)
    have 2: "extractId u = Some (t_id ?t)" unfolding ti by (rule Cons.prems(2))
    have "replay fetch S ?t = (if u \<in> set S then stepRow fetch u ?t else ?t)"
      using 1 2 by (rule Cons.IH)
    also have "\<dots> = ?t" by (simp only: stepRow_idem [OF assms(3)] if_cancel)
    finally have "replay fetch (v # S) t = ?t" unfolding vu by (simp only: replay_Cons)
    then show ?thesis unfolding vu by simp
  next
    case False
    then have s: "stepRow fetch v t = t" by (rule stepRow_other)
    from False Cons.prems(2) have "v \<noteq> u" by auto
    have "replay fetch S t = (if u \<in> set S then stepRow fetch u t else t)"
      using rest Cons.prems(2) by (rule Cons.IH)
    with s \<open>v \<noteq> u\<close> show ?thesis by (simp only: replay_Cons set_simps insert_iff) auto
  qed
qed

lemma keysOk_filter:
  "keysOk db \<Longrightarrow> keysOk \<lparr>rows = filter Q (rows db), nextId = nextId db\<rparr>"
  by (auto simp: keysOk_def list_all_iff distinct_map_filter)

lemma idsUnique_filter:
  "idsUnique db \<Longrightarrow> idsUnique \<lparr>rows = filter Q (rows db), nextId = nextId db\<rparr>"
  by (auto simp: idsUnique_def distinct_map_filter)

lemma oneUrlPerId_D:
  "oneUrlPerId L \<Longrightarrow> u \<in> set L \<Longrightarrow> v \<in> set L \<Longrightarrow> extractId u = Some i \<Longrightarrow>
     extractId v = Some i \<Longrightarrow> v = u"
  by (auto simp: oneUrlPerId_def list_all_iff)

text \<open>
  C1, as the code has it. Take a store with distinct internal identifiers and one
  record per remote identifier, as the empty store is, and a catalog that is faithful
  on the list: each fetch succeeds with the URL asked for and its identifier. Then the
  pass completes and leaves such a store again, and a second pass over the same list
  completes with the very same store. The second pass inserts and deletes nothing:
  its events are warnings and writes. When no two different URLs of the list carry the
  same identifier it writes nothing either, and only repeats the warnings of the URLs
  without identifier.
\<close>

theorem second_sync_changes_nothing:
  assumes "keysOk db" and "idsUnique db" and "faithful fetch L"
  shows "\<exists>db1 es1 es2.
           syncDatabaseWatchedThreads fetch L db = (Completed, db1, es1)
         \<and> syncDatabaseWatchedThreads fetch L db1 = (Completed, db1, es2)
         \<and> keysOk db1 \<and> idsUnique db1
         \<and> (\<forall>e \<in> set es2. (\<exists>k t. e = ThreadWrite k t) \<or> (\<exists>w. e = LogWarn w))
         \<and> (oneUrlPerId L \<longrightarrow> es2 = map LogWarn (filter (\<lambda>u. extractId u = None) L))"
proof -
  define ids where "ids = List.map_filter extractId L"
  from syncUrls_settles [OF assms(1,2,3), of "[]" "[]"] obtain dbA esA where
    a: "syncUrls fetch L [] db = (Completed, ids, dbA, esA)"
    and kA: "keysOk dbA" and iA: "idsUnique dbA"
    and subA: "set ids \<subseteq> storedIds dbA"
    and stA: "\<forall>r \<in> set (rows dbA). replay fetch L (snd r) = snd r"
    unfolding ids_def by (simp add: List.map_filter_simps) blast
  define db1 where
    "db1 = \<lparr>rows = filter (\<lambda>(k, t). t_id t \<in> set ids) (rows dbA), nextId = nextId dbA\<rparr>"
  define dels where
    "dels = map ThreadDelete (map fst (filter (\<lambda>(k, t). t_id t \<notin> set ids) (rows dbA)))"
  have rows1: "rows db1 = filter (\<lambda>(k, t). t_id t \<in> set ids) (rows dbA)"
    by (simp add: db1_def)
  have "removeUnsubscribed ids (rows dbA) dbA = (db1, dels)"
    unfolding db1_def dels_def using kA by (rule removeUnsubscribed_rows)
  with a have p1: "syncDatabaseWatchedThreads fetch L db = (Completed, db1, esA @ dels)"
    by (simp add: syncDatabaseWatchedThreads_def)
  have k1: "keysOk db1" unfolding db1_def using kA by (rule keysOk_filter)
  have i1: "idsUnique db1" unfolding db1_def using iA by (rule idsUnique_filter)
  have sub1: "set ids \<subseteq> storedIds db1"
  proof
    fix j assume j: "j \<in> set ids"
    with subA obtain k t where "(k, t) \<in> set (rows dbA)" "t_id t = j"
      by (auto simp: storedIds_def)
    with j have "(k, t) \<in> set (rows db1)" by (simp add: rows1)
    from storedIds_row [OF this] \<open>t_id t = j\<close> show "j \<in> storedIds db1" by simp
  qed
  have st1: "\<forall>r \<in> set (rows db1). replay fetch L (snd r) = snd r"
    using stA by (simp add: rows1)
  have same: "map (\<lambda>(k, t). (k, replay fetch L t)) (rows db1) = rows db1"
  proof (rule map_idI)
    fix r assume "r \<in> set (rows db1)"
    with st1 have "replay fetch L (snd r) = snd r" by blast
    then show "(case r of (k, t) \<Rightarrow> (k, replay fetch L t)) = r" by (cases r) simp
  qed
  have bk: "\<lparr>rows = rows db1, nextId = nextId db1\<rparr> = db1" by simp
  from syncUrls_replays [OF k1 i1 assms(3), of "[]"] sub1 obtain es where
    b: "syncUrls fetch L [] db1 = (Completed, ids, db1, es)"
    and ev: "\<forall>e \<in> set es. (\<exists>k t. e = ThreadWrite k t) \<or> (\<exists>w. e = LogWarn w)"
    unfolding same bk ids_def by (simp add: List.map_filter_simps) blast
  have keep: "filter (\<lambda>(k, t). t_id t \<in> set ids) (rows db1) = rows db1"
    by (simp add: rows1)
  have none: "filter (\<lambda>(k, t). t_id t \<notin> set ids) (rows db1) = []"
    by (auto simp: rows1 filter_empty_conv)
  have r2: "removeUnsubscribed ids (rows db1) db1 = (db1, [])"
    unfolding removeUnsubscribed_rows [OF k1, of ids] keep none by simp
  have p2: "syncDatabaseWatchedThreads fetch L db1 = (Completed, db1, es)"
    using b r2 by (simp add: syncDatabaseWatchedThreads_def)
  have quiet: "es = map LogWarn (filter (\<lambda>u. extractId u = None) L)" if one: "oneUrlPerId L"
  proof -
    have "\<forall>u \<in> set L. \<forall>i. extractId u = Some i \<longrightarrow>
             (\<exists>k t others. ThreadDB_search_id i db1 = (k, t) # others \<and> t_url t = u)"
    proof (intro ballI allI impI)
      fix u i assume u: "u \<in> set L" and e: "extractId u = Some i"
      then have "i \<in> set ids" unfolding ids_def by (auto simp: set_map_filter)
      with sub1 obtain k t where m: "(k, t) \<in> set (rows db1)" and ti: "t_id t = i"
        by (auto simp: storedIds_def)
      from search_unique [OF i1 m] ti have s: "ThreadDB_search_id i db1 = [(k, t)]" by simp
      from st1 m have rt: "replay fetch L t = t" by force
      from assms(3) u have fu: "faithfulOn fetch u" by (simp add: faithful_def list_all_iff)
      have et: "extractId u = Some (t_id t)" using e ti by simp
      have "\<forall>v \<in> set L. extractId v = Some (t_id t) \<longrightarrow> v = u"
        using oneUrlPerId_D [OF one u _ e] ti by auto
      from replay_single_url [OF this et fu] u rt have "stepRow fetch u t = t" by simp
      from stepRow_fixed_url [OF fu et this] have "t_url t = u" .
      with s show "\<exists>k t others. ThreadDB_search_id i db1 = (k, t) # others \<and> t_url t = u"
        by blast
    qed
    from syncUrls_steady [OF this, of fetch "[]"] b show ?thesis by simp
  qed
  from p1 p2 k1 i1 ev quiet show ?thesis by blast
qed

lemma extractId_a1: "extractId (js ''https://f95zone.to/threads/a.1/'') = Some 1"
  by (simp add: sync_eval)

theorem second_sync_changes_nothing_witness:
  "\<exists>db1 es1.
      syncDatabaseWatchedThreads echoCatalog
        [js ''https://f95zone.to/threads/a.1/'', js ''https://f95zone.to/threads/123/''] storeWith7
        = (Completed, db1, es1)
    \<and> syncDatabaseWatchedThreads echoCatalog
        [js ''https://f95zone.to/threads/a.1/'', js ''https://f95zone.to/threads/123/''] db1
        = (Completed, db1, [LogWarn (js ''https://f95zone.to/threads/123/'')])"
proof -
  have k: "keysOk storeWith7" by (simp add: keysOk_def storeWith7_def)
  have i: "idsUnique storeWith7" by (simp add: idsUnique_def storeWith7_def)
  have f: "faithful echoCatalog
             [js ''https://f95zone.to/threads/a.1/'', js ''https://f95zone.to/threads/123/'']"
    by (simp add: faithfulOn_def echoCatalog_def extractId_a1 extractId_no_dot)
  have o: "oneUrlPerId
             [js ''https://f95zone.to/threads/a.1/'', js ''https://f95zone.to/threads/123/'']"
    by (simp add: oneUrlPerId_def extractId_a1 extractId_no_dot)
  from second_sync_changes_nothing [OF k i f] o show ?thesis
    by (simp add: extractId_a1 extractId_no_dot) blast
qed

text \<open>
  The second pass is not always without updates, and without a faithful catalog not
  even without effect. With two URLs of the same thread in the list, the second pass
  from the store of the first writes the record twice. With a catalog that returns
  the URL in a canonical form, the first pass from the empty store inserts the thread
  and the second pass, from the store of the first, marks it as updated.
\<close>

theorem second_sync_counterexample:
  "snd (snd (syncDatabaseWatchedThreads echoCatalog
       [js ''https://f95zone.to/threads/a.1/'', js ''https://f95zone.to/threads/b.1/'']
       (fst (snd (syncDatabaseWatchedThreads echoCatalog
          [js ''https://f95zone.to/threads/a.1/'', js ''https://f95zone.to/threads/b.1/'']
          emptyThreadDB)))))
   = [ThreadWrite 0 \<lparr>t_id = 1, t_url = js ''https://f95zone.to/threads/a.1/'',
                      t_name = js ''Game'', updateAvailable = True, markedAsRead = False\<rparr>,
      ThreadWrite 0 \<lparr>t_id = 1, t_url = js ''https://f95zone.to/threads/b.1/'',
                      t_name = js ''Game'', updateAvailable = True, markedAsRead = False\<rparr>]
   \<and> syncDatabaseWatchedThreads slashCatalog [js ''https://f95zone.to/threads/a.1'']
       emptyThreadDB
     = (Completed,
        \<lparr>rows = [(0, \<lparr>t_id = 1, t_url = js ''https://f95zone.to/threads/a.1/'',
                        t_name = js ''Game'', updateAvailable = False, markedAsRead = False\<rparr>)],
         nextId = 1\<rparr>,
        [ThreadInsert \<lparr>t_id = 1, t_url = js ''https://f95zone.to/threads/a.1/'',
                        t_name = js ''Game'', updateAvailable = False, markedAsRead = False\<rparr>])
   \<and> syncDatabaseWatchedThreads slashCatalog [js ''https://f95zone.to/threads/a.1'']
       \<lparr>rows = [(0, \<lparr>t_id = 1, t_url = js ''https://f95zone.to/threads/a.1/'',
                       t_name = js ''Game'', updateAvailable = False, markedAsRead = False\<rparr>)],
        nextId = 1\<rparr>
     = (Completed,
        \<lparr>rows = [(0, \<lparr>t_id = 1, t_url = js ''https://f95zone.to/threads/a.1/'',
                        t_name = js ''Game'', updateAvailable = True, markedAsRead = False\<rparr>)],
         nextId = 1\<rparr>,
        [ThreadWrite 0 \<lparr>t_id = 1, t_url = js ''https://f95zone.to/threads/a.1/'',
                        t_name = js ''Game'', updateAvailable = True, markedAsRead = False\<rparr>])"
  by (simp add: sync_eval echoCatalog_def slashCatalog_def)

end
